theory Spec2Isabelle
  imports Main
begin

section \<open>Strings\<close>

text \<open>
  A Python \<^verbatim>\<open>str\<close> is a sequence of Unicode code points, so it is modelled as a list
  of natural numbers. \<open>ascii\<close> turns an ASCII literal into such a string.
\<close>

type_synonym ustr = "nat list"

definition ascii :: "string \<Rightarrow> ustr" where
  "ascii s = map (of_char :: char \<Rightarrow> nat) s"

text \<open>\<^verbatim>\<open>s.startswith(prefix)\<close>.\<close>

definition startswith :: "ustr \<Rightarrow> ustr \<Rightarrow> bool" where
  "startswith s pre = (take (length pre) s = pre)"

text \<open>
  \<^verbatim>\<open>name.replace(old, new)\<close> where \<open>old\<close> and \<open>new\<close> are one character each: every
  occurrence is replaced.
\<close>

definition replace :: "nat \<Rightarrow> nat \<Rightarrow> ustr \<Rightarrow> ustr" where
  "replace old new name = map (\<lambda>c. if c = old then new else c) name"

text \<open>\<^verbatim>\<open>name.strip(chars)\<close>: leading and trailing characters of \<open>chars\<close> are removed.\<close>

definition strip :: "(nat \<Rightarrow> bool) \<Rightarrow> ustr \<Rightarrow> ustr" where
  "strip chars s = rev (dropWhile chars (rev (dropWhile chars s)))"

text \<open>The characters that \<^verbatim>\<open>str.strip()\<close> without argument removes (\<^verbatim>\<open>str.isspace\<close>).\<close>

definition isspace :: "nat \<Rightarrow> bool" where
  "isspace c = ((0x09 \<le> c \<and> c \<le> 0x0D) \<or> (0x1C \<le> c \<and> c \<le> 0x20) \<or> c = 0x85 \<or> c = 0xA0
      \<or> c = 0x1680 \<or> (0x2000 \<le> c \<and> c \<le> 0x200A) \<or> c = 0x2028 \<or> c = 0x2029
      \<or> c = 0x202F \<or> c = 0x205F \<or> c = 0x3000)"

text \<open>\<^verbatim>\<open>str(n)\<close> for a non-negative integer, and the format \<^verbatim>\<open>{n:02d}\<close>.\<close>

fun str_nat :: "nat \<Rightarrow> ustr" where
  "str_nat n = (if n < 10 then [48 + n] else str_nat (n div 10) @ [48 + n mod 10])"

declare str_nat.simps [simp del]

definition format_02d :: "int \<Rightarrow> ustr" where
  "format_02d i =
     (if i < 0 then 45 # str_nat (nat (- i))
      else if i < 10 then 48 # str_nat (nat i)
      else str_nat (nat i))"

section \<open>sanitize_filename\<close>

text \<open>
  The table \<^verbatim>\<open>illegal_chars\<close> of the source, in its insertion order: slash, colon,
  backslash, question mark, asterisk, less-than, greater-than, vertical bar and the double
  quote, each with the replacement the source gives it. The replacement listed for the
  double quote (U+0022) is U+0022 itself.
\<close>

definition illegal_chars :: "(nat \<times> nat) list" where
  "illegal_chars =
     [(0x2F, 0x2215), (0x3A, 0x2236), (0x5C, 0x29F5), (0x3F, 0xFF1F), (0x2A, 0xFF0A),
      (0x3C, 0xFF1C), (0x3E, 0xFF1E), (0x7C, 0xFF5C), (0x22, 0x22)]"

definition sanitize_filename :: "ustr \<Rightarrow> ustr" where
  "sanitize_filename name =
     (if name = [] then ascii ''Unknown''
      else
        let name1 = fold (\<lambda>(illegal, replacement) n. replace illegal replacement n) illegal_chars name;
            name2 = strip (\<lambda>c. c = 0x20 \<or> c = 0x2E) name1
        in if name2 = [] then ascii ''Unknown'' else name2)"

section \<open>Paths and the file system\<close>

text \<open>
  A \<^verbatim>\<open>Path\<close> is absolute and is the list of its components; the root is \<open>[]\<close>.
  \<open>joinpath\<close> is the operator \<^verbatim>\<open>/\<close> of pathlib for a right operand that is one component
  (no slash in it) or the empty string: every string the importer joins is a sanitised
  name, which holds no slash, or the name of a file.
\<close>

type_synonym path = "ustr list"

definition joinpath :: "path \<Rightarrow> ustr \<Rightarrow> path" where
  "joinpath p s = (if s = [] then p else p @ [s])"

definition path_name :: "path \<Rightarrow> ustr" where
  "path_name p = (if p = [] then [] else last p)"

definition path_parent :: "path \<Rightarrow> path" where
  "path_parent p = butlast p"

text \<open>\<^verbatim>\<open>s.rfind(c)\<close>: the index of the last occurrence, or -1.\<close>

definition rfind :: "nat \<Rightarrow> ustr \<Rightarrow> int" where
  "rfind c s =
     (if c \<in> set s then int (length s) - 1 - int (length (takeWhile (\<lambda>x. x \<noteq> c) (rev s)))
      else - 1)"

text \<open>
  \<^verbatim>\<open>Path.suffix\<close> and \<^verbatim>\<open>Path.stem\<close>: the name is split at its last dot, unless that dot is
  the first or the last character of the name.
\<close>

definition path_suffix :: "path \<Rightarrow> ustr" where
  "path_suffix p =
     (let n = path_name p; i = rfind 0x2E n
      in if 0 < i \<and> i < int (length n) - 1 then drop (nat i) n else [])"

definition path_stem :: "path \<Rightarrow> ustr" where
  "path_stem p =
     (let n = path_name p; i = rfind 0x2E n
      in if 0 < i \<and> i < int (length n) - 1 then take (nat i) n else n)"

text \<open>
  The file system maps a path to a regular file or to a directory. A regular file has its
  bytes and two facts about its permissions: whether its mode has the read bit of the
  owner, and whether the importing process can open it for reading (which follows from the
  mode and from who owns the file). Symbolic links and special files are not modelled.
\<close>

datatype node = RegularFile "nat list" bool bool | Directory

type_synonym filesystem = "path \<Rightarrow> node option"

text \<open>The content of the regular file at a path, if there is one.\<close>

definition file_content :: "filesystem \<Rightarrow> path \<Rightarrow> nat list option" where
  "file_content fs p = (case fs p of Some (RegularFile c ow r) \<Rightarrow> Some c | _ \<Rightarrow> None)"

definition is_regular :: "filesystem \<Rightarrow> path \<Rightarrow> bool" where
  "is_regular fs p = (case fs p of Some (RegularFile c ow r) \<Rightarrow> True | _ \<Rightarrow> False)"

text \<open>
  The exceptions of the model. \<open>OSError\<close> stands for the errors of \<^verbatim>\<open>stat\<close> other than
  "not found" (a name that is too long, a directory that cannot be searched).
  \<open>CollisionExhausted\<close> is the \<^verbatim>\<open>Exception\<close> that \<^verbatim>\<open>generate_target_path\<close> raises with
  the message "too many file name conflicts".
\<close>

datatype error =
  FileNotFoundError | FileExistsError | IsADirectoryError | SameFileError | PermissionError
  | OSError | CollisionExhausted

section \<open>The environment: library functions the importer calls\<close>

record metadata =
  artist :: "ustr option"
  album_artist :: "ustr option"
  album :: "ustr option"
  title :: "ustr option"
  track_number :: "ustr option"
  year :: "ustr option"
  genre :: "ustr option"

text \<open>
  What reading a file with mutagen comes to in \<^verbatim>\<open>extract_metadata\<close>: the reader returns
  no object (\<open>Unrecognised\<close>); or an exception is raised, with the fields filled in up to
  then (\<open>Raised\<close>); or the fields of the format's branch are all read (\<open>Tags\<close>).
\<close>

datatype mutagen_result = Unrecognised | Raised metadata | Tags metadata

text \<open>
  The library functions and the operating system are parameters of the model:
  \<^item> \<open>urlparse_path\<close> is \<^verbatim>\<open>urlparse(s).path\<close>, \<open>None\<close> when it raises;
  \<^item> \<open>unquote\<close> is \<^verbatim>\<open>urllib.parse.unquote\<close>;
  \<^item> \<open>resolve base s\<close> is the path that \<^verbatim>\<open>Path(s)\<close> resolves to (relative to \<open>base\<close>
    when it is not absolute, with the home directory expanded), \<open>None\<close> when that raises;
  \<^item> \<open>read_lines\<close> gives the lines that iterating over the playlist's bytes as UTF-8 text
    yields, and whether the iteration then raises instead of reaching the end;
  \<^item> \<open>MutagenFile\<close> is the metadata reader, applied to a path and the bytes of the file;
  \<^item> \<open>md5_digest\<close> is the MD5 digest of a byte sequence, in hexadecimal;
  \<^item> \<open>py_int\<close> is \<^verbatim>\<open>int(s)\<close>, \<open>None\<close> when it raises;
  \<^item> \<open>dir_size\<close> is the size that \<^verbatim>\<open>stat\<close> reports for a directory;
  \<^item> \<open>stat_raises\<close> holds of the paths for which \<^verbatim>\<open>stat\<close> fails with an error other
    than "not found", so that \<^verbatim>\<open>exists()\<close> and \<^verbatim>\<open>is_file()\<close> raise instead of
    returning False.
\<close>

record env =
  urlparse_path :: "ustr \<Rightarrow> ustr option"
  unquote :: "ustr \<Rightarrow> ustr"
  resolve :: "path \<Rightarrow> ustr \<Rightarrow> path option"
  read_lines :: "nat list \<Rightarrow> ustr list \<times> bool"
  MutagenFile :: "path \<Rightarrow> nat list \<Rightarrow> mutagen_result"
  md5_digest :: "nat list \<Rightarrow> ustr"
  py_int :: "ustr \<Rightarrow> int option"
  dir_size :: "path \<Rightarrow> nat"
  stat_raises :: "path \<Rightarrow> bool"

section \<open>Operations on the file system\<close>

text \<open>\<^verbatim>\<open>p.exists()\<close> and \<^verbatim>\<open>p.is_file()\<close>.\<close>

definition path_exists :: "env \<Rightarrow> filesystem \<Rightarrow> path \<Rightarrow> error + bool" where
  "path_exists env fs p = (if stat_raises env p then Inl OSError else Inr (fs p \<noteq> None))"

definition is_file :: "env \<Rightarrow> filesystem \<Rightarrow> path \<Rightarrow> error + bool" where
  "is_file env fs p = (if stat_raises env p then Inl OSError else Inr (is_regular fs p))"

text \<open>\<^verbatim>\<open>p.stat().st_size\<close>.\<close>

definition st_size :: "env \<Rightarrow> filesystem \<Rightarrow> path \<Rightarrow> error + nat" where
  "st_size env fs p =
     (if stat_raises env p then Inl OSError
      else case fs p of
             None \<Rightarrow> Inl FileNotFoundError
           | Some (RegularFile c ow r) \<Rightarrow> Inr (length c)
           | Some Directory \<Rightarrow> Inr (dir_size env p))"

text \<open>Opening a file and reading all its bytes.\<close>

definition open_read :: "env \<Rightarrow> filesystem \<Rightarrow> path \<Rightarrow> error + nat list" where
  "open_read env fs p =
     (if stat_raises env p then Inl OSError
      else case fs p of
             None \<Rightarrow> Inl FileNotFoundError
           | Some Directory \<Rightarrow> Inl IsADirectoryError
           | Some (RegularFile c ow r) \<Rightarrow> if r then Inr c else Inl PermissionError)"

text \<open>A path with all its parents, the root first.\<close>

definition ancestors :: "path \<Rightarrow> path list" where
  "ancestors p = map (\<lambda>n. take n p) [0..<Suc (length p)]"

text \<open>
  \<^verbatim>\<open>p.mkdir(parents=True, exist_ok=True)\<close>: it raises when the path cannot be examined or
  when the path or one of its parents is a regular file, and otherwise leaves the path
  and all its parents as directories.
\<close>

definition mkdir_parents :: "env \<Rightarrow> filesystem \<Rightarrow> path \<Rightarrow> error + filesystem" where
  "mkdir_parents env fs p =
     (if stat_raises env p then Inl OSError
      else if list_ex (is_regular fs) (ancestors p) then Inl FileExistsError
      else Inr (\<lambda>q. if q \<in> set (ancestors p) then Some Directory else fs q))"

text \<open>
  \<^verbatim>\<open>shutil.copy2(src, dst)\<close>: a destination that is a directory receives the file under
  the source's name; copying a file onto itself, a source that is missing, not regular or
  not readable, and a missing destination directory raise. The copy has the bytes and
  the mode of the source and belongs to the importing process, which can therefore read
  it exactly when the mode has the read bit of the owner.
\<close>

definition copy2 :: "env \<Rightarrow> filesystem \<Rightarrow> path \<Rightarrow> path \<Rightarrow> error + filesystem" where
  "copy2 env fs src dst =
     (let dst' = (if \<not> stat_raises env dst \<and> fs dst = Some Directory
                  then joinpath dst (path_name src) else dst)
      in if stat_raises env src \<or> stat_raises env dst' then Inl OSError
         else case fs src of
           None \<Rightarrow> Inl FileNotFoundError
         | Some Directory \<Rightarrow> Inl IsADirectoryError
         | Some (RegularFile c ow r) \<Rightarrow>
             if dst' = src then Inl SameFileError
             else if \<not> r then Inl PermissionError
             else if fs (path_parent dst') \<noteq> Some Directory then Inl FileNotFoundError
             else if fs dst' = Some Directory then Inl IsADirectoryError
             else Inr (fs(dst' \<mapsto> RegularFile c ow ow)))"

section \<open>The importer\<close>

datatype copy_status = Success | Skipped | Failed

text \<open>
  One entry of \<^verbatim>\<open>self.results\<close>. A failed entry has no target path, no digest and the
  empty dictionary as metadata (\<open>None\<close> here).
\<close>

record import_record =
  rec_source_path :: path
  rec_target_path :: "path option"
  rec_filename :: ustr
  rec_size_bytes :: nat
  rec_status :: copy_status
  rec_md5 :: "ustr option"
  rec_error :: "error option"
  rec_metadata :: "metadata option"

text \<open>The attributes of \<^verbatim>\<open>M3U8Importer\<close>: the two paths, the counters of \<^verbatim>\<open>self.stats\<close>
  and \<^verbatim>\<open>self.results\<close>.\<close>

record importer =
  m3u8_path :: path
  target_base_dir :: path
  total_entries :: nat
  valid_files :: nat
  missing_files :: nat
  metadata_read_success :: nat
  metadata_read_failed :: nat
  copied_success :: nat
  copied_skipped :: nat
  copied_failed :: nat
  total_size :: nat
  results :: "import_record list"

text \<open>\<^verbatim>\<open>__init__\<close>, for the two paths already resolved.\<close>

definition M3U8Importer :: "path \<Rightarrow> path \<Rightarrow> importer" where
  "M3U8Importer m3u8 target_base =
     \<lparr>m3u8_path = m3u8, target_base_dir = target_base, total_entries = 0, valid_files = 0,
      missing_files = 0, metadata_read_success = 0, metadata_read_failed = 0,
      copied_success = 0, copied_skipped = 0, copied_failed = 0, total_size = 0,
      results = []\<rparr>"

subsection \<open>extract_metadata\<close>

definition no_metadata :: metadata where
  "no_metadata =
     \<lparr>artist = None, album_artist = None, album = None, title = None, track_number = None,
      year = None, genre = None\<rparr>"

definition empty_to_None :: "ustr option \<Rightarrow> ustr option" where
  "empty_to_None v = (if v = Some [] then None else v)"

text \<open>
  The reader opens the file: when that fails, the exception is caught like any other and
  the fields are all \<open>None\<close>.
\<close>

definition extract_metadata ::
  "env \<Rightarrow> importer \<Rightarrow> filesystem \<Rightarrow> path \<Rightarrow> metadata \<times> importer" where
  "extract_metadata env self fs file_path =
     (case open_read env fs file_path of
        Inl e \<Rightarrow>
          (no_metadata, self\<lparr>metadata_read_failed := metadata_read_failed self + 1\<rparr>)
      | Inr bytes \<Rightarrow>
         (case MutagenFile env file_path bytes of
            Unrecognised \<Rightarrow> (no_metadata, self)
          | Tags m \<Rightarrow>
              (\<lparr>artist = empty_to_None (artist m),
                album_artist = empty_to_None (album_artist m),
                album = empty_to_None (album m), title = empty_to_None (title m),
                track_number = empty_to_None (track_number m), year = empty_to_None (year m),
                genre = empty_to_None (genre m)\<rparr>,
               self\<lparr>metadata_read_success := metadata_read_success self + 1\<rparr>)
          | Raised m \<Rightarrow> (m, self\<lparr>metadata_read_failed := metadata_read_failed self + 1\<rparr>)))"

subsection \<open>Comparing files\<close>

definition calculate_md5 :: "env \<Rightarrow> filesystem \<Rightarrow> path \<Rightarrow> error + ustr" where
  "calculate_md5 env fs file_path =
     (case open_read env fs file_path of
        Inl e \<Rightarrow> Inl e
      | Inr bytes \<Rightarrow> Inr (md5_digest env bytes))"

definition files_identical :: "env \<Rightarrow> filesystem \<Rightarrow> path \<Rightarrow> path \<Rightarrow> bool" where
  "files_identical env fs file1 file2 =
     (case st_size env fs file1 of
        Inl e \<Rightarrow> False
      | Inr size1 \<Rightarrow>
         (case st_size env fs file2 of
            Inl e \<Rightarrow> False
          | Inr size2 \<Rightarrow>
             if size1 \<noteq> size2 then False
             else
               (case calculate_md5 env fs file1 of
                  Inl e \<Rightarrow> False
                | Inr hash1 \<Rightarrow>
                   (case calculate_md5 env fs file2 of
                      Inl e \<Rightarrow> False
                    | Inr hash2 \<Rightarrow> hash1 = hash2))))"

subsection \<open>generate_target_path\<close>


definition or_default :: "ustr option \<Rightarrow> ustr \<Rightarrow> ustr" where
  "or_default v d = (case v of None \<Rightarrow> d | Some s \<Rightarrow> if s = [] then d else s)"

text \<open>Lines 231 to 244: the file name before conflicts are handled.\<close>

definition target_filename :: "env \<Rightarrow> path \<Rightarrow> metadata \<Rightarrow> ustr" where
  "target_filename env source_path metadata =
     (case title metadata of
        None \<Rightarrow> path_name source_path
      | Some t \<Rightarrow>
          if t = [] then path_name source_path
          else
            sanitize_filename
              (case track_number metadata of
                 None \<Rightarrow> t @ path_suffix source_path
               | Some n \<Rightarrow>
                   if n = [] then t @ path_suffix source_path
                   else
                     (case py_int env (takeWhile (\<lambda>c. c \<noteq> 0x2F) n) of
                        Some track_num \<Rightarrow>
                          format_02d track_num @ ascii '' - '' @ t @ path_suffix source_path
                      | None \<Rightarrow> t @ path_suffix source_path)))"

text \<open>The file name with the number \<open>counter\<close> before the extension.\<close>

definition numbered :: "path \<Rightarrow> ustr \<Rightarrow> ustr \<Rightarrow> nat \<Rightarrow> path" where
  "numbered target_dir stem suffix counter =
     joinpath target_dir (stem @ ascii '' ('' @ str_nat counter @ ascii '')'' @ suffix)"

text \<open>Lines 254 to 260: the \<^verbatim>\<open>while\<close> loop, from the current path and counter.\<close>

function suffix_loop ::
  "env \<Rightarrow> filesystem \<Rightarrow> path \<Rightarrow> ustr \<Rightarrow> ustr \<Rightarrow> path \<Rightarrow> nat \<Rightarrow> error + path" where
  "suffix_loop env fs target_dir stem suffix target_path counter =
     (case path_exists env fs target_path of
        Inl e \<Rightarrow> Inl e
      | Inr found \<Rightarrow>
          if found then
            (if counter + 1 > 100 then Inl CollisionExhausted
             else suffix_loop env fs target_dir stem suffix
                    (numbered target_dir stem suffix counter) (counter + 1))
          else Inr target_path)"
  by pat_completeness auto
termination
  by (relation
        "measure (\<lambda>(env, fs, target_dir, stem, suffix, target_path, counter). 101 - counter)")
    auto

declare suffix_loop.simps [simp del]

text \<open>
  The file system is returned too: the directories that \<^verbatim>\<open>mkdir\<close> made stay when the
  function raises later.
\<close>

definition generate_target_path ::
  "env \<Rightarrow> path \<Rightarrow> filesystem \<Rightarrow> path \<Rightarrow> metadata \<Rightarrow> filesystem \<times> (error + path)" where
  "generate_target_path env base_dir fs source_path metadata =
     (let artist_name =
            or_default (album_artist metadata)
              (or_default (artist metadata) (ascii ''Unknown Artist''));
          album_name = or_default (album metadata) (ascii ''Unknown Album'');
          artist_clean = sanitize_filename artist_name;
          album_clean = sanitize_filename album_name;
          target_dir = joinpath (joinpath base_dir artist_clean) album_clean
      in case mkdir_parents env fs target_dir of
           Inl e \<Rightarrow> (fs, Inl e)
         | Inr fs1 \<Rightarrow>
            (let target_path = joinpath target_dir (target_filename env source_path metadata)
             in case path_exists env fs1 target_path of
                  Inl e \<Rightarrow> (fs1, Inl e)
                | Inr found \<Rightarrow>
                    if found \<and> \<not> files_identical env fs1 source_path target_path
                    then (fs1, suffix_loop env fs1 target_dir (path_stem target_path)
                                 (path_suffix target_path) target_path 1)
                    else (fs1, Inr target_path)))"

subsection \<open>parse_m3u8\<close>

text \<open>Lines 321 to 335: the path a line refers to, \<open>None\<close> when an exception is raised.\<close>

definition referred_path :: "env \<Rightarrow> ustr \<Rightarrow> path \<Rightarrow> path option" where
  "referred_path env path_str base_dir =
     (case (if startswith path_str (ascii ''file://'')
            then map_option (unquote env) (urlparse_path env path_str)
            else Some path_str) of
        None \<Rightarrow> None
      | Some s \<Rightarrow> resolve env base_dir (unquote env s))"

text \<open>
  Lines 337 to 347. The test of line 338 is inside the \<^verbatim>\<open>try\<close>: when \<^verbatim>\<open>exists()\<close> or
  \<^verbatim>\<open>is_file()\<close> raises, the \<^verbatim>\<open>except\<close> branch returns \<open>None\<close> and leaves the counters.
\<close>

definition resolve_path ::
  "env \<Rightarrow> importer \<Rightarrow> filesystem \<Rightarrow> ustr \<Rightarrow> path \<Rightarrow> importer \<times> path option" where
  "resolve_path env self fs path_str base_dir =
     (case referred_path env path_str base_dir of
        None \<Rightarrow> (self, None)
      | Some file_path \<Rightarrow>
         (case path_exists env fs file_path of
            Inl e \<Rightarrow> (self, None)
          | Inr found \<Rightarrow>
             (case (if found then is_file env fs file_path else Inr False) of
                Inl e \<Rightarrow> (self, None)
              | Inr regular \<Rightarrow>
                  if regular then (self, Some file_path)
                  else (self\<lparr>missing_files := missing_files self + 1\<rparr>, None))))"

text \<open>The body of the \<^verbatim>\<open>for\<close> loop over the lines, with the list of paths found so far.\<close>

fun parse_lines ::
  "env \<Rightarrow> filesystem \<Rightarrow> path \<Rightarrow> ustr list \<Rightarrow> importer \<times> path list \<Rightarrow> importer \<times> path list"
  where
  "parse_lines env fs m3u8_dir [] (self, file_paths) = (self, file_paths)"
| "parse_lines env fs m3u8_dir (raw # rest) (self, file_paths) =
     (let line = strip isspace raw
      in if line = [] \<or> startswith line (ascii ''#'')
         then parse_lines env fs m3u8_dir rest (self, file_paths)
         else
           (case resolve_path env (self\<lparr>total_entries := total_entries self + 1\<rparr>) fs line
                   m3u8_dir of
              (self1, Some file_path) \<Rightarrow>
                parse_lines env fs m3u8_dir rest
                  (self1\<lparr>valid_files := valid_files self1 + 1\<rparr>, file_paths @ [file_path])
            | (self1, None) \<Rightarrow> parse_lines env fs m3u8_dir rest (self1, file_paths)))"

text \<open>
  The test of line 273 is outside the \<^verbatim>\<open>try\<close>, so an exception of \<^verbatim>\<open>exists()\<close> leaves
  the function; opening and reading the file are inside it.
\<close>

definition parse_m3u8 ::
  "env \<Rightarrow> importer \<Rightarrow> filesystem \<Rightarrow> error + (importer \<times> path list)" where
  "parse_m3u8 env self fs =
     (case path_exists env fs (m3u8_path self) of
        Inl e \<Rightarrow> Inl e
      | Inr found \<Rightarrow>
          if \<not> found then Inr (self, [])
          else
            (case open_read env fs (m3u8_path self) of
               Inl e \<Rightarrow> Inr (self, [])
             | Inr bytes \<Rightarrow>
                (case read_lines env bytes of
                   (lines, raised) \<Rightarrow>
                     (case parse_lines env fs (path_parent (m3u8_path self)) lines (self, []) of
                        (self1, file_paths) \<Rightarrow>
                          if raised then Inr (self1, []) else Inr (self1, file_paths)))))"

subsection \<open>copy_files\<close>

text \<open>Lines 441 to 449: the entry of a file that was copied or skipped.\<close>

definition record_result ::
  "env \<Rightarrow> importer \<Rightarrow> filesystem \<Rightarrow> path \<Rightarrow> path \<Rightarrow> copy_status \<Rightarrow> metadata
     \<Rightarrow> importer \<times> error option" where
  "record_result env self fs source_path target_path st metadata =
     (case st_size env fs target_path of
        Inl e \<Rightarrow> (self, Some e)
      | Inr sz \<Rightarrow>
         (case calculate_md5 env fs target_path of
            Inl e \<Rightarrow> (self, Some e)
          | Inr h \<Rightarrow>
             (self\<lparr>results := results self @
                [\<lparr>rec_source_path = source_path, rec_target_path = Some target_path,
                  rec_filename = path_name target_path, rec_size_bytes = sz, rec_status = st,
                  rec_md5 = Some h, rec_error = None, rec_metadata = Some metadata\<rparr>]\<rparr>,
              None)))"

text \<open>
  Lines 413 to 449: the body of the \<^verbatim>\<open>try\<close> for one file. The result holds the importer
  and the file system as they are when the body ends or raises, and the exception if any.
  The counters of a copy are incremented before the entry is built, so they stay
  incremented when building the entry raises.
\<close>

definition try_copy ::
  "env \<Rightarrow> importer \<Rightarrow> filesystem \<Rightarrow> path \<Rightarrow> importer \<times> filesystem \<times> error option" where
  "try_copy env self fs source_path =
     (case extract_metadata env self fs source_path of
        (metadata, self1) \<Rightarrow>
          (case generate_target_path env (target_base_dir self1) fs source_path metadata of
             (fs1, Inl e) \<Rightarrow> (self1, fs1, Some e)
           | (fs1, Inr target_path) \<Rightarrow>
              (case path_exists env fs1 target_path of
                 Inl e \<Rightarrow> (self1, fs1, Some e)
               | Inr found \<Rightarrow>
                  if found \<and> files_identical env fs1 source_path target_path
                  then
                    (case record_result env
                            (self1\<lparr>copied_skipped := copied_skipped self1 + 1\<rparr>)
                            fs1 source_path target_path Skipped metadata of
                       (self2, err) \<Rightarrow> (self2, fs1, err))
                  else
                    (case copy2 env fs1 source_path target_path of
                       Inl e \<Rightarrow> (self1, fs1, Some e)
                     | Inr fs2 \<Rightarrow>
                        (case st_size env fs2 target_path of
                           Inl e \<Rightarrow> (self1, fs2, Some e)
                         | Inr file_size \<Rightarrow>
                            (case record_result env
                                    (self1\<lparr>total_size := total_size self1 + file_size,
                                           copied_success := copied_success self1 + 1\<rparr>)
                                    fs2 source_path target_path Success metadata of
                               (self2, err) \<Rightarrow> (self2, fs2, err)))))))"

text \<open>Lines 451 to 464: the \<^verbatim>\<open>except\<close> branch adds the failed entry.\<close>

definition failed_record :: "path \<Rightarrow> error \<Rightarrow> import_record" where
  "failed_record source_path e =
     \<lparr>rec_source_path = source_path, rec_target_path = None,
      rec_filename = path_name source_path, rec_size_bytes = 0, rec_status = Failed,
      rec_md5 = None, rec_error = Some e, rec_metadata = None\<rparr>"

definition copy_one :: "env \<Rightarrow> importer \<Rightarrow> filesystem \<Rightarrow> path \<Rightarrow> importer \<times> filesystem" where
  "copy_one env self fs source_path =
     (case try_copy env self fs source_path of
        (self1, fs1, None) \<Rightarrow> (self1, fs1)
      | (self1, fs1, Some e) \<Rightarrow>
          (self1\<lparr>copied_failed := copied_failed self1 + 1,
                 results := results self1 @ [failed_record source_path e]\<rparr>, fs1))"

fun copy_loop :: "env \<Rightarrow> importer \<times> filesystem \<Rightarrow> path list \<Rightarrow> importer \<times> filesystem" where
  "copy_loop env (self, fs) [] = (self, fs)"
| "copy_loop env (self, fs) (source_path # rest) =
     copy_loop env (copy_one env self fs source_path) rest"

text \<open>The directory of line 405 is made outside the \<^verbatim>\<open>try\<close> of the loop.\<close>

definition copy_files ::
  "env \<Rightarrow> importer \<Rightarrow> filesystem \<Rightarrow> path list \<Rightarrow> error + (importer \<times> filesystem)" where
  "copy_files env self fs file_paths =
     (case mkdir_parents env fs (target_base_dir self) of
        Inl e \<Rightarrow> Inl e
      | Inr fs1 \<Rightarrow> Inr (copy_loop env (self, fs1) file_paths))"

subsection \<open>run and main\<close>

text \<open>
  \<^verbatim>\<open>run\<close> returns its boolean with the importer and the file system it leaves. Writing
  the log, the report and the summary is not modelled.
\<close>

definition run :: "env \<Rightarrow> importer \<Rightarrow> filesystem \<Rightarrow> bool \<times> importer \<times> filesystem" where
  "run env self fs =
     (case parse_m3u8 env self fs of
        Inl e \<Rightarrow> (False, self, fs)
      | Inr (self1, file_paths) \<Rightarrow>
          if file_paths = [] then (False, self1, fs)
          else
            (case copy_files env self1 fs file_paths of
               Inl e \<Rightarrow> (False, self1, fs)
             | Inr (self2, fs2) \<Rightarrow> (True, self2, fs2)))"

text \<open>The exit status of \<^verbatim>\<open>main\<close>, for a playlist path and a target directory.\<close>

definition main :: "env \<Rightarrow> path \<Rightarrow> path \<Rightarrow> filesystem \<Rightarrow> nat" where
  "main env m3u8 target_base fs =
     (if fst (run env (M3U8Importer m3u8 target_base) fs) then 0 else 1)"

section \<open>Definitions used in the statements and proofs\<close>

text \<open>What the loop over \<^verbatim>\<open>illegal_chars\<close> does to one character.\<close>

definition subst :: "nat \<Rightarrow> nat" where
  "subst c =
     (if c = 0x2F then 0x2215 else if c = 0x3A then 0x2236 else if c = 0x5C then 0x29F5
      else if c = 0x3F then 0xFF1F else if c = 0x2A then 0xFF0A else if c = 0x3C then 0xFF1C
      else if c = 0x3E then 0xFF1E else if c = 0x7C then 0xFF5C else c)"

text \<open>The entry that \<^verbatim>\<open>copy_files\<close> appends for a target file with content \<open>c\<close>.\<close>

definition made_record ::
  "env \<Rightarrow> path \<Rightarrow> path \<Rightarrow> nat list \<Rightarrow> copy_status \<Rightarrow> metadata \<Rightarrow> import_record" where
  "made_record env source_path target_path c st metadata =
     \<lparr>rec_source_path = source_path, rec_target_path = Some target_path,
      rec_filename = path_name target_path, rec_size_bytes = length c, rec_status = st,
      rec_md5 = Some (md5_digest env c), rec_error = None, rec_metadata = Some metadata\<rparr>"

text \<open>Counting the entries of one status, and the bytes of the entries copied.\<close>

definition count_status :: "copy_status \<Rightarrow> import_record list \<Rightarrow> nat" where
  "count_status st rs = length (filter (\<lambda>r. rec_status r = st) rs)"

definition bytes_copied :: "import_record list \<Rightarrow> nat" where
  "bytes_copied rs = sum_list (map rec_size_bytes (filter (\<lambda>r. rec_status r = Success) rs))"

text \<open>
  Every entry with a target path describes the regular file at that path: its digest and
  its size are those of the file's content.
\<close>

definition entry_describes :: "env \<Rightarrow> filesystem \<Rightarrow> import_record \<Rightarrow> bool" where
  "entry_describes env fs r =
     (case rec_target_path r of
        None \<Rightarrow> True
      | Some p \<Rightarrow>
         (case file_content fs p of
            None \<Rightarrow> False
          | Some c \<Rightarrow> rec_md5 r = Some (md5_digest env c) \<and> rec_size_bytes r = length c))"

text \<open>The copy counters agree with the entries: one count per status, and the bytes.\<close>

definition tallies :: "importer \<Rightarrow> bool" where
  "tallies self =
     (copied_success self = count_status Success (results self)
      \<and> copied_skipped self = count_status Skipped (results self)
      \<and> copied_failed self = count_status Failed (results self)
      \<and> total_size self = bytes_copied (results self))"

text \<open>The sum of the three copy counters.\<close>

definition copy_outcomes :: "importer \<Rightarrow> nat" where
  "copy_outcomes self = copied_success self + copied_skipped self + copied_failed self"

text \<open>
  The mode of every regular file has the read bit of the owner, so that every copy the
  importer makes can be read back by it.
\<close>

definition owner_readable :: "filesystem \<Rightarrow> bool" where
  "owner_readable fs = (\<forall>p c ow r. fs p = Some (RegularFile c ow r) \<longrightarrow> ow)"

text \<open>The three components of what \<^verbatim>\<open>run\<close> leaves, and the paths that parsing finds.\<close>

definition run_ok :: "env \<Rightarrow> importer \<Rightarrow> filesystem \<Rightarrow> bool" where
  "run_ok env self fs = fst (run env self fs)"

definition run_importer :: "env \<Rightarrow> importer \<Rightarrow> filesystem \<Rightarrow> importer" where
  "run_importer env self fs = fst (snd (run env self fs))"

definition run_fs :: "env \<Rightarrow> importer \<Rightarrow> filesystem \<Rightarrow> filesystem" where
  "run_fs env self fs = snd (snd (run env self fs))"

definition parsed_paths :: "env \<Rightarrow> importer \<Rightarrow> filesystem \<Rightarrow> path list" where
  "parsed_paths env self fs =
     (case parse_m3u8 env self fs of Inl e \<Rightarrow> [] | Inr (self1, file_paths) \<Rightarrow> file_paths)"

subsection \<open>A small concrete setting\<close>

text \<open>
  A playlist \<open>/m/p\<close> with the two lines \<open>a\<close> and \<open>b\<close>, next to the files \<open>/m/a\<close> and
  \<open>/m/b\<close> of different content, all readable. The reader recognises every file except
  one whose only byte is 0, and gives it the tags artist \<open>A\<close>, album \<open>B\<close>, title \<open>C\<close>; a
  line resolves to the file of that name beside the playlist; the digest of a content is
  the content itself; \<^verbatim>\<open>stat\<close> raises for a path with a component of more than 255
  bytes in UTF-8.
\<close>

fun split_lines :: "nat list \<Rightarrow> nat list list" where
  "split_lines [] = []"
| "split_lines (c # cs) =
     (if c = 10 then [] # split_lines cs
      else (case split_lines cs of [] \<Rightarrow> [[c]] | l # ls \<Rightarrow> (c # l) # ls))"

definition utf8_length :: "ustr \<Rightarrow> nat" where
  "utf8_length s =
     sum_list (map (\<lambda>c. if c < 0x80 then 1 else if c < 0x800 then 2
                         else if c < 0x10000 then 3 else 4) s)"

definition name_too_long :: "path \<Rightarrow> bool" where
  "name_too_long p = list_ex (\<lambda>s. 255 < utf8_length s) p"

definition demo_tags :: metadata where
  "demo_tags =
     \<lparr>artist = Some (ascii ''A''), album_artist = None, album = Some (ascii ''B''),
      title = Some (ascii ''C''), track_number = None, year = None, genre = None\<rparr>"

definition demo_env :: env where
  "demo_env =
     \<lparr>urlparse_path = (\<lambda>s. Some (drop 7 s)), unquote = (\<lambda>s. s),
      resolve = (\<lambda>base s. Some (joinpath base s)),
      read_lines = (\<lambda>bytes. (split_lines bytes, False)),
      MutagenFile = (\<lambda>p bytes. if bytes = [0] then Unrecognised else Tags demo_tags),
      md5_digest = (\<lambda>c. c), py_int = (\<lambda>s. None), dir_size = (\<lambda>p. 0),
      stat_raises = name_too_long\<rparr>"

definition demo_fs :: filesystem where
  "demo_fs =
     [[] \<mapsto> Directory, [ascii ''m''] \<mapsto> Directory,
      [ascii ''m'', ascii ''p''] \<mapsto> RegularFile (ascii ''a'' @ [10] @ ascii ''b'') True True,
      [ascii ''m'', ascii ''a''] \<mapsto> RegularFile [1] True True,
      [ascii ''m'', ascii ''b''] \<mapsto> RegularFile [2] True True]"

text \<open>
  Variants of the concrete setting: the playlist and the target directory; a target
  directory given as the path of the regular file \<open>/m/a\<close>; a playlist that names the file
  \<open>a\<close> twice; a playlist with a third line \<open>z\<close> for which there is no file; a target tree
  where the artist's directory \<open>/t/A\<close> is taken by a regular file, and one where the
  directory of the unknown artist is taken too; sources that the reader does not
  recognise; a source \<open>/m/a\<close> that belongs to someone else, readable by the importing
  process while its mode has no read bit for the owner.
\<close>

definition demo_playlist :: path where
  "demo_playlist = [ascii ''m'', ascii ''p'']"

definition demo_target :: path where
  "demo_target = [ascii ''t'']"

definition file_target :: path where
  "file_target = [ascii ''m'', ascii ''a'']"

definition twice_fs :: filesystem where
  "twice_fs =
     demo_fs([ascii ''m'', ascii ''p''] \<mapsto> RegularFile (ascii ''a'' @ [10] @ ascii ''a'') True True)"

definition longer_fs :: filesystem where
  "longer_fs =
     demo_fs([ascii ''m'', ascii ''p''] \<mapsto>
       RegularFile (ascii ''a'' @ [10] @ ascii ''b'' @ [10] @ ascii ''z'') True True)"

definition blocked_fs :: filesystem where
  "blocked_fs =
     demo_fs([ascii ''t''] \<mapsto> Directory,
             [ascii ''t'', ascii ''A''] \<mapsto> RegularFile [9] True True)"

definition all_blocked_fs :: filesystem where
  "all_blocked_fs =
     blocked_fs([ascii ''t'', ascii ''Unknown Artist''] \<mapsto> RegularFile [9] True True)"

definition silent_fs :: filesystem where
  "silent_fs =
     demo_fs([ascii ''m'', ascii ''a''] \<mapsto> RegularFile [0] True True,
             [ascii ''m'', ascii ''b''] \<mapsto> RegularFile [0] True True)"

definition foreign_fs :: filesystem where
  "foreign_fs = demo_fs([ascii ''m'', ascii ''a''] \<mapsto> RegularFile [1] False True)"

definition all_blocked_silent_fs :: filesystem where
  "all_blocked_silent_fs = all_blocked_fs([ascii ''m'', ascii ''a''] \<mapsto> RegularFile [0] True True)"

text \<open>A line of 256 letters \<open>a\<close>, one more than a file name can have.\<close>

definition long_line :: ustr where
  "long_line = replicate 256 97"

section \<open>Properties of sanitize_filename\<close>

lemma fold_replace_illegal:
  "fold (\<lambda>(illegal, replacement) n. replace illegal replacement n) illegal_chars name
     = map subst name"
  by (simp add: illegal_chars_def replace_def subst_def)

lemma subst_idem: "subst (subst c) = subst c"
  by (simp add: subst_def)

lemma subst_space_dot: "(subst c = 0x20 \<or> subst c = 0x2E) = (c = 0x20 \<or> c = 0x2E)"
  by (simp add: subst_def)

lemma dropWhile_map_subst:
  "dropWhile (\<lambda>c. c = 0x20 \<or> c = 0x2E) (map subst s)
     = map subst (dropWhile (\<lambda>c. c = 0x20 \<or> c = 0x2E) s)"
  by (induction s) (simp_all add: subst_space_dot)

lemma strip_map_subst:
  "strip (\<lambda>c. c = 0x20 \<or> c = 0x2E) (map subst s)
     = map subst (strip (\<lambda>c. c = 0x20 \<or> c = 0x2E) s)"
  by (simp add: strip_def dropWhile_map_subst rev_map)

lemma dropWhile_rev_tail:
  assumes "u = [] \<or> \<not> P (hd u)"
  shows "dropWhile P (rev (dropWhile P (rev u))) = rev (dropWhile P (rev u))"
proof -
  obtain m where m: "rev (dropWhile P (rev u)) = take m u"
    by (metis dropWhile_eq_drop rev_drop rev_rev_ident)
  show ?thesis
  proof (cases "take m u")
    case Nil
    show ?thesis unfolding m Nil by (simp only: dropWhile.simps)
  next
    case (Cons x xs)
    then have "x = hd u"
      by (metis hd_take list.sel(1) take_eq_Nil list.distinct(1) not_gr_zero take_0)
    moreover have "u \<noteq> []" using Cons by auto
    ultimately have "\<not> P x" using assms by simp
    then show ?thesis unfolding m Cons by simp
  qed
qed

lemma strip_idem: "strip P (strip P s) = strip P s"
proof -
  have u: "dropWhile P s = [] \<or> \<not> P (hd (dropWhile P s))"
    using hd_dropWhile by blast
  have "dropWhile P (strip P s) = strip P s"
    unfolding strip_def by (rule dropWhile_rev_tail [of "dropWhile P s" P, OF u])
  then show ?thesis
    by (simp add: strip_def)
qed

lemma ascii_Unknown: "ascii ''Unknown'' = [85, 110, 107, 110, 111, 119, 110]"
  by (simp add: ascii_def)

lemma strip_Nil: "strip P [] = []"
  by (simp add: strip_def)

lemma sanitize_filename_eq:
  "sanitize_filename name =
     (if strip (\<lambda>c. c = 0x20 \<or> c = 0x2E) (map subst name) = [] then ascii ''Unknown''
      else strip (\<lambda>c. c = 0x20 \<or> c = 0x2E) (map subst name))"
proof (cases "name = []")
  case True
  then show ?thesis
    by (simp add: sanitize_filename_def strip_Nil)
next
  case False
  then show ?thesis
    by (simp add: sanitize_filename_def fold_replace_illegal Let_def)
qed

lemma strip_Unknown:
  "strip (\<lambda>c. c = 0x20 \<or> c = 0x2E) [85, 110, 107, 110, 111, 119, 110]
     = [85, 110, 107, 110, 111, 119, 110]"
  by (simp add: strip_def)

lemma map_subst_Unknown:
  "map subst [85, 110, 107, 110, 111, 119, 110] = [85, 110, 107, 110, 111, 119, 110]"
  by (simp add: subst_def)

lemma sanitize_Unknown: "sanitize_filename (ascii ''Unknown'') = ascii ''Unknown''"
  by (simp only: sanitize_filename_eq ascii_Unknown map_subst_Unknown strip_Unknown) simp

lemma sanitize_filename_not_empty: "sanitize_filename name \<noteq> []"
  by (simp add: sanitize_filename_eq ascii_Unknown)

lemma sanitize_filename_idempotent:
  "sanitize_filename (sanitize_filename name) = sanitize_filename name"
proof (cases "strip (\<lambda>c. c = 0x20 \<or> c = 0x2E) (map subst name) = []")
  case True
  then have "sanitize_filename name = ascii ''Unknown''"
    by (simp add: sanitize_filename_eq)
  then show ?thesis by (simp add: sanitize_Unknown)
next
  case False
  let ?t = "strip (\<lambda>c. c = 0x20 \<or> c = 0x2E) (map subst name)"
  have t: "sanitize_filename name = ?t"
    using False by (simp add: sanitize_filename_eq)
  have "map subst ?t = ?t"
    by (simp add: strip_map_subst [symmetric] subst_idem comp_def)
  then have "strip (\<lambda>c. c = 0x20 \<or> c = 0x2E) (map subst ?t) = ?t"
    by (simp add: strip_idem)
  then have "sanitize_filename ?t = ?t"
    using False by (simp add: sanitize_filename_eq)
  with t show ?thesis by simp
qed

lemma subst_not_illegal:
  "subst x \<notin> {0x2F, 0x3A, 0x5C, 0x3F, 0x2A, 0x3C, 0x3E, 0x7C}"
  by (simp add: subst_def)

lemma set_strip_subset: "set (strip P s) \<subseteq> set s"
proof -
  have "set (dropWhile P (rev (dropWhile P s))) \<subseteq> set (rev (dropWhile P s))"
    by (meson set_dropWhileD subsetI)
  also have "\<dots> \<subseteq> set s"
    using set_dropWhileD by fastforce
  finally show ?thesis by (simp add: strip_def)
qed

lemma sanitize_filename_no_illegal:
  assumes "c \<in> set (sanitize_filename name)"
  shows "c \<notin> {0x2F, 0x3A, 0x5C, 0x3F, 0x2A, 0x3C, 0x3E, 0x7C}"
proof (cases "strip (\<lambda>c. c = 0x20 \<or> c = 0x2E) (map subst name) = []")
  case True
  then have "sanitize_filename name = [85, 110, 107, 110, 111, 119, 110]"
    by (simp add: sanitize_filename_eq ascii_Unknown)
  with assms show ?thesis by auto
next
  case False
  then have "sanitize_filename name = strip (\<lambda>c. c = 0x20 \<or> c = 0x2E) (map subst name)"
    by (simp add: sanitize_filename_eq)
  with assms have "c \<in> set (map subst name)"
    using set_strip_subset by fastforce
  then obtain x where "c = subst x" by auto
  then show ?thesis using subst_not_illegal by simp
qed

text \<open>
  C6. \<^verbatim>\<open>sanitize_filename\<close> is idempotent and never returns the empty string (the two
  lemmas above), and the characters slash, colon, backslash, question mark, asterisk,
  less-than, greater-than and vertical bar never remain in its result. The double quote,
  which the claim lists with them, is not replaced: the table gives it itself as the
  replacement, so the name \<open>a"b\<close> is returned as it is.
\<close>

theorem sanitize_filename_keeps_double_quote:
  "sanitize_filename [0x61, 0x22, 0x62] = [0x61, 0x22, 0x62]"
proof -
  have "map subst [0x61, 0x22, 0x62] = [0x61, 0x22, 0x62]"
    by (simp add: subst_def)
  moreover have "strip (\<lambda>c. c = 0x20 \<or> c = 0x2E) [0x61, 0x22, 0x62] = [0x61, 0x22, 0x62]"
    by (simp add: strip_def)
  ultimately show ?thesis
    by (simp add: sanitize_filename_eq)
qed

section \<open>The file system under one copy step\<close>

lemma file_content_Some:
  "file_content fs p = Some c \<longleftrightarrow> (\<exists>ow r. fs p = Some (RegularFile c ow r))"
  by (auto simp: file_content_def split: option.splits node.splits)

lemma file_content_None_iff: "file_content fs p = None \<longleftrightarrow> \<not> is_regular fs p"
  by (auto simp: is_regular_def file_content_def split: option.splits node.splits)

lemma mkdir_parents_regular:
  assumes "mkdir_parents env fs p = Inr fs1"
  shows "fs1 q = Some (RegularFile c ow r) \<longleftrightarrow> fs q = Some (RegularFile c ow r)"
proof -
  from assms have no: "\<not> list_ex (is_regular fs) (ancestors p)"
    and fs1: "fs1 = (\<lambda>q. if q \<in> set (ancestors p) then Some Directory else fs q)"
    by (auto simp: mkdir_parents_def split: if_splits)
  show ?thesis
  proof (cases "q \<in> set (ancestors p)")
    case True
    with no have "\<not> is_regular fs q" by (auto simp: list_ex_iff)
    then have "fs q \<noteq> Some (RegularFile c ow r)" by (auto simp: is_regular_def)
    with True fs1 show ?thesis by simp
  next
    case False
    with fs1 show ?thesis by simp
  qed
qed

lemma mkdir_parents_content:
  assumes "mkdir_parents env fs p = Inr fs1"
  shows "file_content fs1 = file_content fs"
proof
  fix q
  show "file_content fs1 q = file_content fs q"
  proof (cases "file_content fs q")
    case None
    have "file_content fs1 q = None"
    proof (rule ccontr)
      assume "file_content fs1 q \<noteq> None"
      then obtain c ow r where "fs1 q = Some (RegularFile c ow r)"
        by (auto simp: file_content_Some)
      with mkdir_parents_regular [OF assms] have "fs q = Some (RegularFile c ow r)" by simp
      with None show False by (simp add: file_content_def)
    qed
    with None show ?thesis by simp
  next
    case (Some c)
    then obtain ow r where "fs q = Some (RegularFile c ow r)"
      by (auto simp: file_content_Some)
    with mkdir_parents_regular [OF assms] have "fs1 q = Some (RegularFile c ow r)" by simp
    with Some show ?thesis by (simp add: file_content_def)
  qed
qed

lemma mkdir_parents_owner_readable:
  assumes "mkdir_parents env fs p = Inr fs1"
  shows "owner_readable fs1 \<longleftrightarrow> owner_readable fs"
  unfolding owner_readable_def by (simp add: mkdir_parents_regular [OF assms])

lemma open_read_Inr:
  assumes "open_read env fs p = Inr c"
  shows "file_content fs p = Some c" "\<not> stat_raises env p"
    "st_size env fs p = Inr (length c)" "calculate_md5 env fs p = Inr (md5_digest env c)"
    "fs p \<noteq> None"
  using assms
  by (auto simp: open_read_def st_size_def calculate_md5_def file_content_def
      split: if_splits option.splits node.splits)

lemma files_identical_content:
  assumes "files_identical env fs a b"
  obtains d where "open_read env fs b = Inr d"
  using assms
  by (auto simp: files_identical_def calculate_md5_def split: sum.splits if_splits)

lemma suffix_loop_free:
  "suffix_loop env fs target_dir stem suffix target_path counter = Inr p \<Longrightarrow>
     fs p = None \<and> \<not> stat_raises env p"
proof (induction env fs target_dir stem suffix target_path counter rule: suffix_loop.induct)
  case (1 env fs target_dir stem suffix target_path counter)
  show ?case
  proof (cases "path_exists env fs target_path")
    case (Inl e)
    with "1.prems" show ?thesis
      by (subst (asm) suffix_loop.simps) simp
  next
    case (Inr found)
    show ?thesis
    proof (cases found)
      case True
      with Inr "1.prems" have small: "\<not> counter + 1 > 100"
        and rec: "suffix_loop env fs target_dir stem suffix
                    (numbered target_dir stem suffix counter) (counter + 1) = Inr p"
        by (subst (asm) suffix_loop.simps, simp split: if_splits)+
      from "1.IH" [OF Inr True small rec] show ?thesis .
    next
      case False
      with Inr "1.prems" have "target_path = p"
        by (subst (asm) suffix_loop.simps) simp
      with Inr False show ?thesis
        by (auto simp: path_exists_def split: if_splits)
    qed
  qed
qed

lemma generate_target_path_content:
  assumes "generate_target_path env base fs src md = (fs1, r)"
  shows "file_content fs1 = file_content fs" "owner_readable fs1 \<longleftrightarrow> owner_readable fs"
  using assms
  by (auto simp: generate_target_path_def Let_def split: sum.splits if_splits
      dest: mkdir_parents_content mkdir_parents_owner_readable)

lemma generate_target_path_post:
  assumes "generate_target_path env base fs src md = (fs1, Inr p)"
  shows "\<not> stat_raises env p" "fs1 p = None \<or> files_identical env fs1 src p"
  using assms
  by (auto simp: generate_target_path_def Let_def path_exists_def
      split: sum.splits if_splits dest: suffix_loop_free)

lemma record_result_file:
  "open_read env fs p = Inr c \<Longrightarrow>
     record_result env self fs src p st md =
       (self\<lparr>results := results self @ [made_record env src p c st md]\<rparr>, None)"
  by (simp add: record_result_def open_read_Inr made_record_def)

lemma record_result_raised:
  "open_read env fs p = Inl e \<Longrightarrow>
     \<exists>e'. \<forall>self src st md. record_result env self fs src p st md = (self, Some e')"
  by (cases "st_size env fs p") (auto simp: record_result_def calculate_md5_def)

lemma copy2_fresh:
  assumes "copy2 env fs src dst = Inr fs2" and "fs dst = None"
  obtains c ow r where "fs src = Some (RegularFile c ow r)"
    "fs2 = fs(dst \<mapsto> RegularFile c ow ow)" "\<not> stat_raises env dst"
  using assms
  by (auto simp: copy2_def Let_def split: option.splits node.splits if_splits)

lemma file_content_upd:
  "file_content (fs(p \<mapsto> RegularFile c ow r)) = (file_content fs)(p \<mapsto> c)"
  by (auto simp: file_content_def fun_eq_iff)

lemma owner_readable_upd:
  "owner_readable fs \<Longrightarrow> fs src = Some (RegularFile c ow r) \<Longrightarrow>
     owner_readable (fs(p \<mapsto> RegularFile c ow ow))"
  unfolding owner_readable_def by (metis fun_upd_apply node.inject option.inject)

text \<open>
  The body of the \<^verbatim>\<open>try\<close> for one file ends in one of four ways: it raises before any
  copy counter is touched; the file is skipped; the file is copied to a path that was
  free and its entry is built; or the file is copied and counted, and building the entry
  raises because the copy cannot be read back. The last way needs a source whose mode has
  no read bit for the owner.
\<close>

lemma try_copy_cases:
  assumes "try_copy env self fs src = (self', fs', err)"
    and "extract_metadata env self fs src = (md, self1)"
  obtains
    (raised) e where "err = Some e" "self' = self1" "file_content fs' = file_content fs"
      "owner_readable fs' \<longleftrightarrow> owner_readable fs"
  | (skipped) p c where "err = None" "file_content fs' = file_content fs"
      "owner_readable fs' \<longleftrightarrow> owner_readable fs" "file_content fs p = Some c"
      "self' = self1\<lparr>copied_skipped := copied_skipped self1 + 1,
                     results := results self1 @ [made_record env src p c Skipped md]\<rparr>"
  | (copied) p c where "err = None" "file_content fs p = None"
      "file_content fs' = (file_content fs)(p \<mapsto> c)"
      "owner_readable fs \<longrightarrow> owner_readable fs'"
      "self' = self1\<lparr>total_size := total_size self1 + length c,
                     copied_success := copied_success self1 + 1,
                     results := results self1 @ [made_record env src p c Success md]\<rparr>"
  | (counted) p c e where "err = Some e" "file_content fs p = None"
      "file_content fs' = (file_content fs)(p \<mapsto> c)" "\<not> owner_readable fs"
      "self' = self1\<lparr>total_size := total_size self1 + length c,
                     copied_success := copied_success self1 + 1\<rparr>"
proof -
  obtain fs1 r where g: "generate_target_path env (target_base_dir self1) fs src md = (fs1, r)"
    by (cases "generate_target_path env (target_base_dir self1) fs src md")
  note c1 = generate_target_path_content [OF g]
  show ?thesis
  proof (cases r)
    case (Inl e)
    with assms g have "err = Some e" "self' = self1" "fs' = fs1"
      by (simp_all add: try_copy_def)
    with c1 show ?thesis by (intro raised) simp_all
  next
    case (Inr p)
    with g have post: "\<not> stat_raises env p" "fs1 p = None \<or> files_identical env fs1 src p"
      by (auto dest: generate_target_path_post)
    then have ex: "path_exists env fs1 p = Inr (fs1 p \<noteq> None)"
      by (simp add: path_exists_def)
    show ?thesis
    proof (cases "fs1 p \<noteq> None \<and> files_identical env fs1 src p")
      case True
      then obtain d where d: "open_read env fs1 p = Inr d"
        by (auto elim: files_identical_content)
      from assms g Inr True ex
      have "err = None" "fs' = fs1"
        "self' = self1\<lparr>copied_skipped := copied_skipped self1 + 1,
                     results := results self1 @ [made_record env src p d Skipped md]\<rparr>"
        by (simp_all add: try_copy_def record_result_file [OF d])
      moreover have "file_content fs p = Some d"
        using open_read_Inr(1) [OF d] c1 by simp
      ultimately show ?thesis using c1 by (intro skipped) simp_all
    next
      case False
      with post have free: "fs1 p = None"
        by (auto elim: files_identical_content dest: open_read_Inr(5))
      have nf: "\<not> (fs1 p \<noteq> None \<and> files_identical env fs1 src p)"
        using free by simp
      show ?thesis
      proof (cases "copy2 env fs1 src p")
        case (Inl e)
        with assms g Inr free ex have "err = Some e" "self' = self1" "fs' = fs1"
          by (simp_all add: try_copy_def)
        with c1 show ?thesis by (intro raised) simp_all
      next
        case (Inr fs2)
        then obtain c ow rd where c: "fs1 src = Some (RegularFile c ow rd)"
          and f2: "fs2 = fs1(p \<mapsto> RegularFile c ow ow)"
          using free by (auto elim: copy2_fresh)
        have sz: "st_size env fs2 p = Inr (length c)"
          using post(1) f2 by (simp add: st_size_def)
        have fc0: "file_content fs p = None"
          using free c1 by (simp add: file_content_def [of fs1] flip: c1(1))
        have fc2: "file_content fs2 = (file_content fs)(p \<mapsto> c)"
          using f2 c1 by (simp add: file_content_upd)
        show ?thesis
        proof (cases ow)
          case True
          then have p2: "open_read env fs2 p = Inr c"
            using post(1) f2 by (simp add: open_read_def)
          from assms g \<open>r = Inr p\<close> free ex Inr
          have "err = None" "fs' = fs2"
            "self' = self1\<lparr>total_size := total_size self1 + length c,
                     copied_success := copied_success self1 + 1,
                     results := results self1 @ [made_record env src p c Success md]\<rparr>"
            by (simp_all add: try_copy_def record_result_file [OF p2] sz)
          moreover have "owner_readable fs \<longrightarrow> owner_readable fs2"
            using owner_readable_upd [of fs1 src c ow rd p] c c1(2) f2 by simp
          ultimately show ?thesis using fc0 fc2 by (intro copied) simp_all
        next
          case False
          then have "open_read env fs2 p = Inl PermissionError"
            using post(1) f2 by (simp add: open_read_def)
          from record_result_raised [OF this] obtain e' where rr:
            "\<And>self src st md. record_result env self fs2 src p st md = (self, Some e')"
            by blast
          from assms g \<open>r = Inr p\<close> free ex Inr
          have "err = Some e'" "fs' = fs2"
            "self' = self1\<lparr>total_size := total_size self1 + length c,
                     copied_success := copied_success self1 + 1\<rparr>"
            by (simp_all add: try_copy_def rr sz)
          moreover have "\<not> owner_readable fs1"
            using c False by (auto simp: owner_readable_def)
          then have "\<not> owner_readable fs" using c1(2) by simp
          ultimately show ?thesis using fc0 fc2 by (intro counted) simp_all
        qed
      qed
    qed
  qed
qed

lemma extract_metadata_keeps:
  assumes "extract_metadata env self fs src = (md, self1)"
  shows "results self1 = results self" "copied_success self1 = copied_success self"
    "copied_skipped self1 = copied_skipped self" "copied_failed self1 = copied_failed self"
    "total_size self1 = total_size self" "valid_files self1 = valid_files self"
    "total_entries self1 = total_entries self" "missing_files self1 = missing_files self"
    "target_base_dir self1 = target_base_dir self" "m3u8_path self1 = m3u8_path self"
  using assms
  by (auto simp: extract_metadata_def split: sum.splits mutagen_result.splits)

text \<open>
  One file of the loop, with the failed entry of the \<^verbatim>\<open>except\<close> branch. The contents of
  the regular files that exist are never changed.
\<close>

lemma copy_one_cases:
  assumes "copy_one env self fs src = (self', fs')"
    and "extract_metadata env self fs src = (md, self1)"
  obtains
    (failed) e where "file_content fs' = file_content fs"
      "owner_readable fs' \<longleftrightarrow> owner_readable fs"
      "self' = self1\<lparr>copied_failed := copied_failed self1 + 1,
                     results := results self1 @ [failed_record src e]\<rparr>"
  | (skipped) p c where "file_content fs' = file_content fs"
      "owner_readable fs' \<longleftrightarrow> owner_readable fs" "file_content fs p = Some c"
      "self' = self1\<lparr>copied_skipped := copied_skipped self1 + 1,
                     results := results self1 @ [made_record env src p c Skipped md]\<rparr>"
  | (copied) p c where "file_content fs p = None"
      "file_content fs' = (file_content fs)(p \<mapsto> c)"
      "owner_readable fs \<longrightarrow> owner_readable fs'"
      "self' = self1\<lparr>total_size := total_size self1 + length c,
                     copied_success := copied_success self1 + 1,
                     results := results self1 @ [made_record env src p c Success md]\<rparr>"
  | (twice) p c e where "file_content fs p = None"
      "file_content fs' = (file_content fs)(p \<mapsto> c)" "\<not> owner_readable fs"
      "self' = self1\<lparr>total_size := total_size self1 + length c,
                     copied_success := copied_success self1 + 1,
                     copied_failed := copied_failed self1 + 1,
                     results := results self1 @ [failed_record src e]\<rparr>"
proof -
  obtain s2 f2 err where t: "try_copy env self fs src = (s2, f2, err)"
    by (cases "try_copy env self fs src") auto
  from t assms(2) show ?thesis
  proof (cases rule: try_copy_cases)
    case (raised e)
    with t assms(1) have "fs' = f2"
      "self' = self1\<lparr>copied_failed := copied_failed self1 + 1,
                     results := results self1 @ [failed_record src e]\<rparr>"
      by (simp_all add: copy_one_def)
    with raised show ?thesis by (intro failed) simp_all
  next
    case (skipped p c)
    with t assms(1) have "fs' = f2" "self' = s2"
      by (simp_all add: copy_one_def)
    with skipped show ?thesis by (intro that(2)) simp_all
  next
    case (copied p c)
    with t assms(1) have "fs' = f2" "self' = s2"
      by (simp_all add: copy_one_def)
    with copied show ?thesis by (intro that(3)) simp_all
  next
    case (counted p c e)
    with t assms(1) have "fs' = f2"
      "self' = self1\<lparr>total_size := total_size self1 + length c,
                     copied_success := copied_success self1 + 1,
                     copied_failed := copied_failed self1 + 1,
                     results := results self1 @ [failed_record src e]\<rparr>"
      by (simp_all add: copy_one_def)
    with counted show ?thesis by (intro twice) simp_all
  qed
qed

section \<open>The two loops\<close>

lemma resolve_path_keeps:
  assumes "resolve_path env self fs l d = (self1, r)"
  shows "results self1 = results self" "copied_success self1 = copied_success self"
    "copied_skipped self1 = copied_skipped self" "copied_failed self1 = copied_failed self"
    "total_size self1 = total_size self" "valid_files self1 = valid_files self"
    "total_entries self1 = total_entries self" "target_base_dir self1 = target_base_dir self"
    "m3u8_path self1 = m3u8_path self"
    "metadata_read_success self1 = metadata_read_success self"
    "metadata_read_failed self1 = metadata_read_failed self"
  using assms by (auto simp: resolve_path_def split: option.splits sum.splits if_splits)

text \<open>
  Parsing touches neither the copy counters nor the entries, and \<^verbatim>\<open>valid_files\<close> grows
  by the number of paths found.
\<close>

lemma parse_lines_keeps:
  "parse_lines env fs d ls (self, fps) = (self', fps') \<Longrightarrow>
     results self' = results self \<and> copied_success self' = copied_success self
     \<and> copied_skipped self' = copied_skipped self \<and> copied_failed self' = copied_failed self
     \<and> total_size self' = total_size self \<and> target_base_dir self' = target_base_dir self
     \<and> m3u8_path self' = m3u8_path self
     \<and> metadata_read_success self' = metadata_read_success self
     \<and> metadata_read_failed self' = metadata_read_failed self
     \<and> valid_files self' + length fps = valid_files self + length fps'"
proof (induction ls arbitrary: self fps)
  case Nil
  then show ?case by simp
next
  case (Cons raw rest)
  let ?line = "strip isspace raw"
  show ?case
  proof (cases "?line = [] \<or> startswith ?line (ascii ''#'')")
    case True
    with Cons.prems have "parse_lines env fs d rest (self, fps) = (self', fps')"
      by (simp add: Let_def)
    from Cons.IH [OF this] show ?thesis .
  next
    case False
    obtain self1 r where rp:
      "resolve_path env (self\<lparr>total_entries := total_entries self + 1\<rparr>) fs ?line d = (self1, r)"
      by (cases "resolve_path env (self\<lparr>total_entries := total_entries self + 1\<rparr>) fs ?line d")
    note k = resolve_path_keeps [OF rp]
    show ?thesis
    proof (cases r)
      case None
      with Cons.prems False rp have "parse_lines env fs d rest (self1, fps) = (self', fps')"
        by (simp add: Let_def)
      from Cons.IH [OF this] k show ?thesis by simp
    next
      case (Some p)
      with Cons.prems False rp
      have "parse_lines env fs d rest
              (self1\<lparr>valid_files := valid_files self1 + 1\<rparr>, fps @ [p]) = (self', fps')"
        by (simp add: Let_def)
      from Cons.IH [OF this] k show ?thesis by simp
    qed
  qed
qed

lemma parse_m3u8_keeps:
  assumes "parse_m3u8 env self fs = Inr (self1, fps)"
  shows "results self1 = results self \<and> copied_success self1 = copied_success self
     \<and> copied_skipped self1 = copied_skipped self \<and> copied_failed self1 = copied_failed self
     \<and> total_size self1 = total_size self \<and> target_base_dir self1 = target_base_dir self
     \<and> metadata_read_success self1 = metadata_read_success self
     \<and> metadata_read_failed self1 = metadata_read_failed self
     \<and> (fps \<noteq> [] \<longrightarrow> valid_files self1 = valid_files self + length fps)"
proof (cases "open_read env fs (m3u8_path self)")
  case (Inl e)
  with assms show ?thesis
    by (auto simp: parse_m3u8_def split: sum.splits if_splits)
next
  case (Inr bytes)
  obtain ls raised where rl: "read_lines env bytes = (ls, raised)"
    by (cases "read_lines env bytes")
  obtain s2 f2 where pl:
    "parse_lines env fs (path_parent (m3u8_path self)) ls (self, []) = (s2, f2)"
    by (cases "parse_lines env fs (path_parent (m3u8_path self)) ls (self, [])")
  from assms Inr rl pl
  have "(self1 = self \<and> fps = []) \<or> (self1 = s2 \<and> fps = (if raised then [] else f2))"
    by (auto simp: parse_m3u8_def split: sum.splits if_splits)
  with parse_lines_keeps [OF pl] show ?thesis by auto
qed

lemma count_status_append:
  "count_status st (rs @ [r]) = count_status st rs + (if rec_status r = st then 1 else 0)"
  by (simp add: count_status_def)

lemma bytes_copied_append:
  "bytes_copied (rs @ [r])
     = bytes_copied rs + (if rec_status r = Success then rec_size_bytes r else 0)"
  by (simp add: bytes_copied_def)

lemma entry_describes_cong:
  "file_content fs' = file_content fs \<Longrightarrow> entry_describes env fs' r = entry_describes env fs r"
  by (cases "rec_target_path r") (simp_all add: entry_describes_def)

lemma entry_describes_failed: "entry_describes env fs (failed_record src e)"
  by (simp add: entry_describes_def failed_record_def)

lemma entry_describes_made:
  "file_content fs p = Some c \<Longrightarrow> entry_describes env fs (made_record env src p c st md)"
  by (simp add: entry_describes_def made_record_def)

lemma entry_describes_fresh:
  assumes "\<forall>r \<in> set rs. entry_describes env fs r" and "r \<in> set rs"
    and "file_content fs p = None" and "file_content fs' = (file_content fs)(p \<mapsto> c)"
  shows "entry_describes env fs' r"
proof (cases "rec_target_path r")
  case None
  then show ?thesis by (simp add: entry_describes_def)
next
  case (Some q)
  with assms(1,2) obtain d where d: "file_content fs q = Some d"
    "rec_md5 r = Some (md5_digest env d)" "rec_size_bytes r = length d"
    by (auto simp: entry_describes_def split: option.splits)
  with assms(3) have "q \<noteq> p" by auto
  with d assms(4) Some show ?thesis by (simp add: entry_describes_def)
qed

lemma copy_one_step:
  assumes "copy_one env self fs src = (self', fs')"
  shows "copy_outcomes self + 1 \<le> copy_outcomes self'"
    and "length (results self') = length (results self) + 1"
    and "valid_files self' = valid_files self"
    and "target_base_dir self' = target_base_dir self"
    and "owner_readable fs \<Longrightarrow> owner_readable fs'"
    and "owner_readable fs \<Longrightarrow> copy_outcomes self' = copy_outcomes self + 1"
    and "owner_readable fs \<Longrightarrow> tallies self \<Longrightarrow> tallies self'"
    and "\<forall>r \<in> set (results self). entry_describes env fs r \<Longrightarrow>
           \<forall>r \<in> set (results self'). entry_describes env fs' r"
proof -
  obtain md self1 where em: "extract_metadata env self fs src = (md, self1)"
    by (cases "extract_metadata env self fs src")
  note k = extract_metadata_keeps [OF em]
  from assms em show "copy_outcomes self + 1 \<le> copy_outcomes self'"
    by (cases rule: copy_one_cases) (simp_all add: copy_outcomes_def k)
  from assms em show "length (results self') = length (results self) + 1"
    by (cases rule: copy_one_cases) (simp_all add: k)
  from assms em show "valid_files self' = valid_files self"
    by (cases rule: copy_one_cases) (simp_all add: k)
  from assms em show "target_base_dir self' = target_base_dir self"
    by (cases rule: copy_one_cases) (simp_all add: k)
  show "owner_readable fs'" if "owner_readable fs"
    using assms em by (cases rule: copy_one_cases) (use that in simp_all)
  show "copy_outcomes self' = copy_outcomes self + 1" if "owner_readable fs"
    using assms em by (cases rule: copy_one_cases) (use that in \<open>simp_all add: copy_outcomes_def k\<close>)
  show "tallies self'" if ok: "owner_readable fs" and t: "tallies self"
    using assms em
  proof (cases rule: copy_one_cases)
    case (failed e)
    with t k show ?thesis
      by (simp add: tallies_def count_status_append bytes_copied_append failed_record_def)
  next
    case (skipped p c)
    with t k show ?thesis
      by (simp add: tallies_def count_status_append bytes_copied_append made_record_def)
  next
    case (copied p c)
    with t k show ?thesis
      by (simp add: tallies_def count_status_append bytes_copied_append made_record_def)
  next
    case (twice p c e)
    with ok show ?thesis by simp
  qed
  show "\<forall>r \<in> set (results self'). entry_describes env fs' r"
    if old: "\<forall>r \<in> set (results self). entry_describes env fs r"
    using assms em
  proof (cases rule: copy_one_cases)
    case (failed e)
    from old have "\<forall>r \<in> set (results self). entry_describes env fs' r"
      by (simp add: entry_describes_cong [OF failed(1)])
    with failed(3) k show ?thesis
      by (simp add: entry_describes_failed)
  next
    case (skipped p c)
    from old have "\<forall>r \<in> set (results self). entry_describes env fs' r"
      by (simp add: entry_describes_cong [OF skipped(1)])
    moreover have "entry_describes env fs' (made_record env src p c Skipped md)"
      using skipped(1,3) by (simp add: entry_describes_made)
    ultimately show ?thesis using skipped(4) k by simp
  next
    case (copied p c)
    have "entry_describes env fs' r" if "r \<in> set (results self)" for r
      using old that copied(1,2) by (rule entry_describes_fresh)
    moreover have "entry_describes env fs' (made_record env src p c Success md)"
      using copied(2) by (simp add: entry_describes_made)
    ultimately show ?thesis using copied(4) k by simp
  next
    case (twice p c e)
    have "entry_describes env fs' r" if "r \<in> set (results self)" for r
      using old that twice(1,2) by (rule entry_describes_fresh)
    with twice(4) k show ?thesis
      by (simp add: entry_describes_failed)
  qed
qed

lemma copy_loop_inv:
  assumes "copy_loop env (self, fs) ps = (self', fs')"
  shows "length (results self') = length (results self) + length ps
     \<and> valid_files self' = valid_files self
     \<and> copy_outcomes self + length ps \<le> copy_outcomes self'
     \<and> ((\<forall>r \<in> set (results self). entry_describes env fs r) \<longrightarrow>
          (\<forall>r \<in> set (results self'). entry_describes env fs' r))
     \<and> (owner_readable fs \<longrightarrow>
          owner_readable fs' \<and> copy_outcomes self' = copy_outcomes self + length ps
          \<and> (tallies self \<longrightarrow> tallies self'))"
  using assms
proof (induction ps arbitrary: self fs)
  case Nil
  then show ?case by simp
next
  case (Cons src rest)
  obtain s1 f1 where one: "copy_one env self fs src = (s1, f1)"
    by (cases "copy_one env self fs src")
  with Cons.prems have "copy_loop env (s1, f1) rest = (self', fs')"
    by simp
  from Cons.IH [OF this] copy_one_step [OF one] show ?case
    by auto
qed

section \<open>The whole run\<close>

lemma run_collapse:
  "run env self fs = (run_ok env self fs, run_importer env self fs, run_fs env self fs)"
  by (simp add: run_ok_def run_importer_def run_fs_def)

text \<open>
  \<^verbatim>\<open>run\<close> either stops before the loop, with nothing changed since the parsing, or goes
  through the loop over all the paths found.
\<close>

lemma run_cases:
  assumes "run env self fs = (ok, self', fs')"
  obtains
    (unread) e where "parse_m3u8 env self fs = Inl e" "\<not> ok" "self' = self" "fs' = fs"
  | (stopped) fps where "parse_m3u8 env self fs = Inr (self', fps)" "\<not> ok" "fs' = fs"
      "fps = [] \<or> isl (mkdir_parents env fs (target_base_dir self'))"
  | (looped) self1 fps fs1 where "parse_m3u8 env self fs = Inr (self1, fps)" "fps \<noteq> []" "ok"
      "mkdir_parents env fs (target_base_dir self1) = Inr fs1"
      "copy_loop env (self1, fs1) fps = (self', fs')"
proof (cases "parse_m3u8 env self fs")
  case (Inl e)
  with assms have "\<not> ok" "self' = self" "fs' = fs"
    by (simp_all add: run_def)
  with Inl show ?thesis by (intro unread [of e]) simp_all
next
  case (Inr pr)
  obtain self1 fps where pr: "pr = (self1, fps)" by (cases pr)
  with Inr have p: "parse_m3u8 env self fs = Inr (self1, fps)" by simp
  show ?thesis
  proof (cases "fps = []")
    case True
    with assms p have "\<not> ok" "self' = self1" "fs' = fs"
      by (simp_all add: run_def)
    with p True show ?thesis by (intro stopped [of fps]) simp_all
  next
    case False
    show ?thesis
    proof (cases "mkdir_parents env fs (target_base_dir self1)")
      case (Inl e)
      with assms p False have "\<not> ok" "self' = self1" "fs' = fs"
        by (simp_all add: run_def copy_files_def)
      with p Inl show ?thesis by (intro stopped [of fps]) simp_all
    next
      case (Inr fs1)
      obtain s2 f2 where l: "copy_loop env (self1, fs1) fps = (s2, f2)"
        by (cases "copy_loop env (self1, fs1) fps")
      with assms p False Inr have "ok" "self' = s2" "fs' = f2"
        by (simp_all add: run_def copy_files_def)
      with p False Inr l show ?thesis by (intro looped [of self1 fps fs1]) simp_all
    qed
  qed
qed

lemma tallies_init: "tallies (M3U8Importer m3u8 base)"
  by (simp add: tallies_def M3U8Importer_def count_status_def bytes_copied_def)

lemma M3U8Importer_fields:
  "results (M3U8Importer m3u8 base) = []" "copied_success (M3U8Importer m3u8 base) = 0"
  "copied_skipped (M3U8Importer m3u8 base) = 0" "copied_failed (M3U8Importer m3u8 base) = 0"
  "total_size (M3U8Importer m3u8 base) = 0" "valid_files (M3U8Importer m3u8 base) = 0"
  "target_base_dir (M3U8Importer m3u8 base) = base" "m3u8_path (M3U8Importer m3u8 base) = m3u8"
  by (simp_all add: M3U8Importer_def)

lemma tallies_parsed:
  assumes "parse_m3u8 env (M3U8Importer m3u8 base) fs = Inr (self1, fps)"
  shows "tallies self1" "copy_outcomes self1 = 0" "results self1 = []"
    "target_base_dir self1 = base"
  using parse_m3u8_keeps [OF assms] tallies_init [of m3u8 base]
  by (simp_all add: tallies_def copy_outcomes_def M3U8Importer_fields)

subsection \<open>Evaluating the concrete setting\<close>

lemma ancestors_Nil: "ancestors [] = [[]]"
  by (simp add: ancestors_def)

lemma ancestors_Cons: "ancestors (x # xs) = [] # map ((#) x) (ancestors xs)"
proof -
  have "map (\<lambda>n. take n (x # xs)) [0..<Suc (Suc (length xs))]
        = take 0 (x # xs) # map (\<lambda>n. take n (x # xs)) (map Suc [0..<Suc (length xs)])"
    by (subst upt_conv_Cons, simp, subst map_Suc_upt [symmetric], simp)
  then show ?thesis
    by (simp add: ancestors_def comp_def)
qed

lemmas demo_defs = demo_env_def demo_fs_def demo_tags_def M3U8Importer_def ascii_def
  path_parent_def strip_def isspace_def startswith_def resolve_path_def referred_path_def
  joinpath_def path_exists_def is_file_def is_regular_def open_read_def parse_m3u8_def run_def
  copy_files_def mkdir_parents_def ancestors_Nil ancestors_Cons copy_one_def try_copy_def
  extract_metadata_def empty_to_None_def generate_target_path_def or_default_def
  sanitize_filename_eq subst_def target_filename_def path_suffix_def path_stem_def
  path_name_def rfind_def files_identical_def st_size_def calculate_md5_def copy2_def
  record_result_def failed_record_def suffix_loop.simps numbered_def str_nat.simps Let_def
  run_ok_def run_importer_def run_fs_def parsed_paths_def demo_playlist_def demo_target_def
  file_target_def twice_fs_def longer_fs_def blocked_fs_def all_blocked_fs_def
  all_blocked_silent_fs_def silent_fs_def foreign_fs_def no_metadata_def main_def
  name_too_long_def utf8_length_def


lemma twice_run:
  "map rec_target_path
     (results (run_importer demo_env (M3U8Importer demo_playlist demo_target) twice_fs))
     = [Some [ascii ''t'', ascii ''A'', ascii ''B'', ascii ''C''],
        Some [ascii ''t'', ascii ''A'', ascii ''B'', ascii ''C'']]"
  "map rec_status
     (results (run_importer demo_env (M3U8Importer demo_playlist demo_target) twice_fs))
     = [Success, Skipped]"
  by (simp_all add: demo_defs)

lemma blocked_run:
  "run_ok demo_env (M3U8Importer demo_playlist demo_target) blocked_fs"
  "map rec_status
     (results (run_importer demo_env (M3U8Importer demo_playlist demo_target) blocked_fs))
     = [Failed, Failed]"
  "copied_failed (run_importer demo_env (M3U8Importer demo_playlist demo_target) blocked_fs) = 2"
  "parsed_paths demo_env (M3U8Importer demo_playlist demo_target) blocked_fs \<noteq> []"
  "\<not> isl (mkdir_parents demo_env blocked_fs demo_target)"
  by (simp_all add: demo_defs)


text \<open>
  A source that belongs to someone else, with a mode without the read bit of the owner: it
  is copied and counted as a success, the copy cannot be read back to compute its digest,
  and the same file is counted as a failure too. The run returns True with two valid
  files and three copy outcomes, and the bytes of the copy are counted while its entry is
  a failed one.
\<close>

lemma copy_counted_twice:
  "run_ok demo_env (M3U8Importer demo_playlist demo_target) foreign_fs"
  "valid_files (run_importer demo_env (M3U8Importer demo_playlist demo_target) foreign_fs) = 2"
  "copied_success (run_importer demo_env (M3U8Importer demo_playlist demo_target) foreign_fs) = 2"
  "copied_failed (run_importer demo_env (M3U8Importer demo_playlist demo_target) foreign_fs) = 1"
  "map rec_status
     (results (run_importer demo_env (M3U8Importer demo_playlist demo_target) foreign_fs))
     = [Failed, Success]"
  "total_size (run_importer demo_env (M3U8Importer demo_playlist demo_target) foreign_fs) = 2"
  by (simp_all add: demo_defs)

section \<open>Claims about the whole run\<close>



text \<open>
  C3. After a run, two entries with the same target path have the same digest and the
  same size, and both are the digest and the size of the content of the file that the run
  leaves at that path. So no two entries with different digests share a target path.
\<close>

theorem shared_target_same_content:
  assumes "run env (M3U8Importer m3u8 base) fs = (ok, self', fs')"
    and "r1 \<in> set (results self')" and "r2 \<in> set (results self')"
    and "rec_target_path r1 = Some p" and "rec_target_path r2 = Some p"
  shows "rec_md5 r1 = rec_md5 r2 \<and> rec_size_bytes r1 = rec_size_bytes r2
     \<and> (\<exists>c. file_content fs' p = Some c \<and> rec_md5 r1 = Some (md5_digest env c)
            \<and> rec_size_bytes r1 = length c)"
  using assms(1)
proof (cases rule: run_cases)
  case (unread e)
  with assms(2) show ?thesis by (simp add: M3U8Importer_fields)
next
  case (stopped fps)
  with tallies_parsed(3) [OF stopped(1)] assms(2) show ?thesis by simp
next
  case (looped self1 fps fs1)
  have "results self1 = []"
    using tallies_parsed(3) [OF looped(1)] .
  with copy_loop_inv [OF looped(5)]
  have all: "\<forall>r \<in> set (results self'). entry_describes env fs' r"
    by simp
  from all assms(2,4) obtain c where c: "file_content fs' p = Some c"
    "rec_md5 r1 = Some (md5_digest env c)" "rec_size_bytes r1 = length c"
    by (auto simp: entry_describes_def split: option.splits)
  from all assms(3,5) c(1) have "rec_md5 r2 = Some (md5_digest env c)"
    "rec_size_bytes r2 = length c"
    by (auto simp: entry_describes_def split: option.splits)
  with c show ?thesis by simp
qed

theorem shared_target_same_content_witness:
  "rec_target_path
     (results (run_importer demo_env (M3U8Importer demo_playlist demo_target) twice_fs) ! 0)
     = Some [ascii ''t'', ascii ''A'', ascii ''B'', ascii ''C'']
   \<and> rec_target_path
     (results (run_importer demo_env (M3U8Importer demo_playlist demo_target) twice_fs) ! 1)
     = Some [ascii ''t'', ascii ''A'', ascii ''B'', ascii ''C'']
   \<and> rec_md5
     (results (run_importer demo_env (M3U8Importer demo_playlist demo_target) twice_fs) ! 0)
     = rec_md5
     (results (run_importer demo_env (M3U8Importer demo_playlist demo_target) twice_fs) ! 1)
   \<and> rec_size_bytes
     (results (run_importer demo_env (M3U8Importer demo_playlist demo_target) twice_fs) ! 0)
     = rec_size_bytes
     (results (run_importer demo_env (M3U8Importer demo_playlist demo_target) twice_fs) ! 1)"
proof -
  let ?rs = "results (run_importer demo_env (M3U8Importer demo_playlist demo_target) twice_fs)"
  let ?p = "[ascii ''t'', ascii ''A'', ascii ''B'', ascii ''C'']"
  have m: "map rec_target_path ?rs = [Some ?p, Some ?p]"
    by (rule twice_run(1))
  then have len: "length ?rs = 2"
    by (metis length_map length_Cons list.size(3) numeral_2_eq_2)
  have t0: "rec_target_path (?rs ! 0) = Some ?p"
    using m len by (metis nth_map nth_Cons_0 zero_less_numeral)
  have t1: "rec_target_path (?rs ! 1) = Some ?p"
    using m len by (metis nth_map nth_Cons_0 nth_Cons_Suc One_nat_def one_less_numeral_iff
        semiring_norm(76))
  have i0: "?rs ! 0 \<in> set ?rs" and i1: "?rs ! 1 \<in> set ?rs"
    using len by simp_all
  from shared_target_same_content [OF run_collapse i0 i1 t0 t1] t0 t1
  show ?thesis by simp
qed







text \<open>
  C7, as amended. The exit status is 0 exactly when the playlist is read to its end with
  at least one valid file and the target directory can be made, whatever happens to the
  single files in the loop; otherwise it is 1.
\<close>

theorem exit_status_characterised:
  "main env m3u8 base fs =
     (if parsed_paths env (M3U8Importer m3u8 base) fs \<noteq> []
         \<and> \<not> isl (mkdir_parents env fs base)
      then 0 else 1)"
proof (cases "parse_m3u8 env (M3U8Importer m3u8 base) fs")
  case (Inl e)
  then show ?thesis
    by (simp add: main_def run_def parsed_paths_def)
next
  case (Inr pr)
  obtain self1 fps where "pr = (self1, fps)" by (cases pr)
  with Inr have p: "parse_m3u8 env (M3U8Importer m3u8 base) fs = Inr (self1, fps)" by simp
  have b: "target_base_dir self1 = base"
    using tallies_parsed(4) [OF p] .
  show ?thesis
  proof (cases "mkdir_parents env fs base")
    case (Inl e)
    with p b show ?thesis
      by (simp add: main_def run_def copy_files_def parsed_paths_def)
  next
    case (Inr fs1)
    with p b show ?thesis
      by (simp add: main_def run_def copy_files_def parsed_paths_def split: prod.splits)
  qed
qed

theorem exit_status_characterised_witness:
  "parsed_paths demo_env (M3U8Importer demo_playlist demo_target) blocked_fs \<noteq> []
   \<and> \<not> isl (mkdir_parents demo_env blocked_fs demo_target)
   \<and> copied_failed (run_importer demo_env (M3U8Importer demo_playlist demo_target) blocked_fs) = 2
   \<and> main demo_env demo_playlist demo_target blocked_fs = 0"
  using exit_status_characterised [of demo_env demo_playlist demo_target blocked_fs]
    blocked_run(3,4,5)
  by simp

text \<open>
  The claim as stated fails when the target directory is the path of a regular file: the
  playlist is read and has two valid files, and the exit status is 1.
\<close>

theorem exit_status_counterexample:
  "parsed_paths demo_env (M3U8Importer demo_playlist file_target) demo_fs
     = [[ascii ''m'', ascii ''a''], [ascii ''m'', ascii ''b'']]
   \<and> main demo_env demo_playlist file_target demo_fs = 1"
  by (simp add: demo_defs)

section \<open>Claims about parsing, metadata and the target path\<close>

lemma long_line_facts:
  "strip isspace long_line = long_line"
  "long_line \<noteq> []"
  "\<not> startswith long_line (ascii ''#'')"
  "referred_path demo_env long_line [ascii ''m''] = Some [ascii ''m'', long_line]"
  "stat_raises demo_env [ascii ''m'', long_line]"
  "demo_fs [ascii ''m'', long_line] = None"
proof -
  have h: "hd long_line = 97" and n: "long_line \<noteq> []" and l: "last long_line = 97"
    by (simp_all add: long_line_def)
  show "long_line \<noteq> []" by (rule n)
  have d: "dropWhile isspace long_line = long_line"
    by (simp add: long_line_def isspace_def)
  have "dropWhile isspace (rev long_line) = rev long_line"
    by (simp add: long_line_def isspace_def)
  with d show "strip isspace long_line = long_line"
    by (simp add: strip_def)
  have t: "take k long_line \<noteq> c # cs" if "c \<noteq> 97" for k c cs
  proof
    assume "take k long_line = c # cs"
    then have "c \<in> set long_line" by (metis in_set_takeD list.set_intros(1))
    with that show False by (simp add: long_line_def)
  qed
  show "\<not> startswith long_line (ascii ''#'')"
    using t [of 35] by (simp add: startswith_def ascii_def)
  have "\<not> startswith long_line (ascii ''file://'')"
    using t [of 102] by (simp add: startswith_def ascii_def)
  with n show "referred_path demo_env long_line [ascii ''m''] = Some [ascii ''m'', long_line]"
    by (simp add: referred_path_def demo_env_def joinpath_def)
  have "utf8_length long_line = 256"
    by (simp add: utf8_length_def long_line_def sum_list_replicate)
  then show "stat_raises demo_env [ascii ''m'', long_line]"
    by (simp add: demo_env_def name_too_long_def)
  have len: "length long_line = 256"
    by (simp add: long_line_def)
  have ne: "long_line \<noteq> [x]" for x
  proof
    assume "long_line = [x]"
    with len have "length [x] = 256" by simp
    then show False by simp
  qed
  show "demo_fs [ascii ''m'', long_line] = None"
    by (simp add: demo_fs_def ascii_def ne)
qed

text \<open>
  C8, as amended. A line that is blank or begins with \<open>#\<close> after stripping leaves the
  importer and the list of paths as they are, so it is not counted. For a counted line
  whose path can be examined and does not exist or is not a regular file,
  \<^verbatim>\<open>_resolve_path\<close> returns \<open>None\<close> with \<^verbatim>\<open>missing_files\<close> incremented. When working out
  the path or examining it raises, \<^verbatim>\<open>_resolve_path\<close> returns \<open>None\<close> and leaves
  \<^verbatim>\<open>missing_files\<close> as it is. In both cases nothing is raised and the loop goes on with
  the rest of the lines.
\<close>

theorem parse_skips_and_counts_missing:
  "(strip isspace raw = [] \<or> startswith (strip isspace raw) (ascii ''#'') \<longrightarrow>
      parse_lines env fs d (raw # rest) (self, fps) = parse_lines env fs d rest (self, fps))
   \<and> (referred_path env line d = Some p \<and> \<not> stat_raises env p \<and> \<not> is_regular fs p \<longrightarrow>
      resolve_path env self fs line d = (self\<lparr>missing_files := missing_files self + 1\<rparr>, None))
   \<and> (referred_path env line d = None
        \<or> (referred_path env line d = Some p \<and> stat_raises env p) \<longrightarrow>
      resolve_path env self fs line d = (self, None))
   \<and> (strip isspace raw \<noteq> [] \<and> \<not> startswith (strip isspace raw) (ascii ''#'')
        \<and> referred_path env (strip isspace raw) d = Some p
        \<and> \<not> stat_raises env p \<and> \<not> is_regular fs p \<longrightarrow>
      parse_lines env fs d (raw # rest) (self, fps) =
        parse_lines env fs d rest
          (self\<lparr>total_entries := total_entries self + 1,
                missing_files := missing_files self + 1\<rparr>, fps))
   \<and> (strip isspace raw \<noteq> [] \<and> \<not> startswith (strip isspace raw) (ascii ''#'')
        \<and> (referred_path env (strip isspace raw) d = None
            \<or> (referred_path env (strip isspace raw) d = Some p \<and> stat_raises env p)) \<longrightarrow>
      parse_lines env fs d (raw # rest) (self, fps) =
        parse_lines env fs d rest (self\<lparr>total_entries := total_entries self + 1\<rparr>, fps))"
  by (auto simp: resolve_path_def Let_def path_exists_def is_file_def is_regular_def
      split: option.splits node.splits)

theorem parse_skips_and_counts_missing_witness:
  "startswith (strip isspace (ascii ''#x'')) (ascii ''#'')
   \<and> parse_lines demo_env demo_fs [ascii ''m''] [ascii ''#x'']
        (M3U8Importer demo_playlist demo_target, [])
       = (M3U8Importer demo_playlist demo_target, [])
   \<and> strip isspace (ascii ''z'') \<noteq> []
   \<and> \<not> startswith (strip isspace (ascii ''z'')) (ascii ''#'')
   \<and> referred_path demo_env (strip isspace (ascii ''z'')) [ascii ''m'']
       = Some [ascii ''m'', ascii ''z'']
   \<and> \<not> stat_raises demo_env [ascii ''m'', ascii ''z'']
   \<and> \<not> is_regular demo_fs [ascii ''m'', ascii ''z'']
   \<and> resolve_path demo_env (M3U8Importer demo_playlist demo_target) demo_fs
        (strip isspace (ascii ''z'')) [ascii ''m'']
       = ((M3U8Importer demo_playlist demo_target)\<lparr>missing_files := 1\<rparr>, None)
   \<and> parse_lines demo_env demo_fs [ascii ''m''] [ascii ''z'']
        (M3U8Importer demo_playlist demo_target, [])
       = ((M3U8Importer demo_playlist demo_target)\<lparr>total_entries := 1, missing_files := 1\<rparr>, [])
   \<and> strip isspace long_line \<noteq> []
   \<and> \<not> startswith (strip isspace long_line) (ascii ''#'')
   \<and> referred_path demo_env (strip isspace long_line) [ascii ''m'']
       = Some [ascii ''m'', long_line]
   \<and> stat_raises demo_env [ascii ''m'', long_line]
   \<and> parse_lines demo_env demo_fs [ascii ''m''] [long_line]
        (M3U8Importer demo_playlist demo_target, [])
       = ((M3U8Importer demo_playlist demo_target)\<lparr>total_entries := 1\<rparr>, [])"
proof -
  have c: "startswith (strip isspace (ascii ''#x'')) (ascii ''#'')"
    by (simp add: startswith_def strip_def isspace_def ascii_def)
  have z: "strip isspace (ascii ''z'') \<noteq> []"
    "\<not> startswith (strip isspace (ascii ''z'')) (ascii ''#'')"
    by (simp_all add: startswith_def strip_def isspace_def ascii_def)
  have r: "referred_path demo_env (strip isspace (ascii ''z'')) [ascii ''m'']
             = Some [ascii ''m'', ascii ''z'']"
    by (simp add: referred_path_def demo_env_def startswith_def strip_def isspace_def ascii_def
        joinpath_def)
  have m: "\<not> stat_raises demo_env [ascii ''m'', ascii ''z'']"
    "\<not> is_regular demo_fs [ascii ''m'', ascii ''z'']"
    by (simp_all add: is_regular_def demo_fs_def demo_env_def name_too_long_def utf8_length_def
        ascii_def)
  note l = long_line_facts
  from parse_skips_and_counts_missing
         [of "ascii ''#x''" demo_env demo_fs "[ascii ''m'']" "[]"
             "M3U8Importer demo_playlist demo_target" "[]"
             "strip isspace (ascii ''z'')" "[ascii ''m'', ascii ''z'']"]
       parse_skips_and_counts_missing
         [of "ascii ''z''" demo_env demo_fs "[ascii ''m'']" "[]"
             "M3U8Importer demo_playlist demo_target" "[]"
             "strip isspace (ascii ''z'')" "[ascii ''m'', ascii ''z'']"]
       parse_skips_and_counts_missing
         [of long_line demo_env demo_fs "[ascii ''m'']" "[]"
             "M3U8Importer demo_playlist demo_target" "[]"
             long_line "[ascii ''m'', long_line]"]
       c z r m l
  show ?thesis
    by (simp add: M3U8Importer_def)
qed

text \<open>
  The claim as stated fails for a line of 256 letters: the path it refers to does not
  exist, \<^verbatim>\<open>exists()\<close> raises for it because the name is too long, and \<^verbatim>\<open>_resolve_path\<close>
  returns \<open>None\<close> with \<^verbatim>\<open>missing_files\<close> still 0.
\<close>

theorem missing_not_counted_counterexample:
  "referred_path demo_env long_line [ascii ''m''] = Some [ascii ''m'', long_line]
   \<and> demo_fs [ascii ''m'', long_line] = None
   \<and> resolve_path demo_env (M3U8Importer demo_playlist demo_target) demo_fs long_line
        [ascii ''m'']
       = (M3U8Importer demo_playlist demo_target, None)
   \<and> missing_files (M3U8Importer demo_playlist demo_target) = 0"
  by (simp add: long_line_facts resolve_path_def path_exists_def M3U8Importer_def)

text \<open>
  C9. When the reader returns no object for a file, \<^verbatim>\<open>extract_metadata\<close> returns the
  record with every field \<open>None\<close> and leaves the importer as it is; the step of the loop
  for that file leaves both metadata counters unchanged while it appends one entry and
  adds to the copy counters. So the two metadata counters can sum to less than the number
  of valid files.
\<close>

theorem unrecognised_file_counts_nowhere:
  assumes "open_read env fs file_path = Inr bytes"
    and "MutagenFile env file_path bytes = Unrecognised"
  shows "extract_metadata env self fs file_path = (no_metadata, self)
     \<and> metadata_read_success (fst (copy_one env self fs file_path)) = metadata_read_success self
     \<and> metadata_read_failed (fst (copy_one env self fs file_path)) = metadata_read_failed self
     \<and> length (results (fst (copy_one env self fs file_path))) = length (results self) + 1
     \<and> copy_outcomes self + 1 \<le> copy_outcomes (fst (copy_one env self fs file_path))"
proof -
  have em: "extract_metadata env self fs file_path = (no_metadata, self)"
    using assms by (simp add: extract_metadata_def)
  obtain self' fs' where one: "copy_one env self fs file_path = (self', fs')"
    by (cases "copy_one env self fs file_path")
  from one em have "metadata_read_success self' = metadata_read_success self
      \<and> metadata_read_failed self' = metadata_read_failed self"
    by (cases rule: copy_one_cases) simp_all
  with em one copy_one_step(1,2) [OF one] show ?thesis
    by simp
qed

theorem unrecognised_file_counts_nowhere_witness:
  "open_read demo_env silent_fs [ascii ''m'', ascii ''a''] = Inr [0]
   \<and> MutagenFile demo_env [ascii ''m'', ascii ''a''] [0] = Unrecognised
   \<and> extract_metadata demo_env (M3U8Importer demo_playlist demo_target) silent_fs
        [ascii ''m'', ascii ''a'']
       = (no_metadata, M3U8Importer demo_playlist demo_target)
   \<and> valid_files
        (run_importer demo_env (M3U8Importer demo_playlist demo_target) silent_fs) = 2
   \<and> metadata_read_success
        (run_importer demo_env (M3U8Importer demo_playlist demo_target) silent_fs)
       + metadata_read_failed
        (run_importer demo_env (M3U8Importer demo_playlist demo_target) silent_fs) = 0"
proof -
  have o: "open_read demo_env silent_fs [ascii ''m'', ascii ''a''] = Inr [0]"
    by (simp add: open_read_def silent_fs_def demo_fs_def demo_env_def name_too_long_def
        utf8_length_def ascii_def)
  have u: "MutagenFile demo_env [ascii ''m'', ascii ''a''] [0] = Unrecognised"
    by (simp add: demo_env_def)
  have "valid_files
        (run_importer demo_env (M3U8Importer demo_playlist demo_target) silent_fs) = 2"
    "metadata_read_success
        (run_importer demo_env (M3U8Importer demo_playlist demo_target) silent_fs)
       + metadata_read_failed
        (run_importer demo_env (M3U8Importer demo_playlist demo_target) silent_fs) = 0"
    by (simp_all add: demo_defs)
  with unrecognised_file_counts_nowhere
         [OF o u, of "M3U8Importer demo_playlist demo_target"] o u
  show ?thesis by simp
qed



section \<open>The loop over the numbered names\<close>

text \<open>
  The loop looks only at whether a path exists. From a path that exists it returns the
  first numbered name below 100 that is free, and it raises as soon as the names numbered
  from the counter to 99 are all taken; the name numbered 100 is built and never looked at.
\<close>

lemma suffix_loop_first_free:
  assumes "path_exists env fs target_path = Inr True" and "k < 100" and "counter \<le> k"
    and "\<forall>n. counter \<le> n \<and> n < k \<longrightarrow>
           path_exists env fs (numbered target_dir stem suffix n) = Inr True"
    and "path_exists env fs (numbered target_dir stem suffix k) = Inr False"
  shows "suffix_loop env fs target_dir stem suffix target_path counter
           = Inr (numbered target_dir stem suffix k)"
  using assms
proof (induction "k - counter" arbitrary: counter target_path)
  case 0
  then have "counter = k" by simp
  with 0 show ?case
    by (simp add: suffix_loop.simps [of env fs target_dir stem suffix target_path]
        suffix_loop.simps [of env fs target_dir stem suffix "numbered target_dir stem suffix k"])
next
  case (Suc d)
  then have lt: "counter < k" by simp
  with Suc.prems
  have ex: "path_exists env fs (numbered target_dir stem suffix counter) = Inr True"
    by simp
  have "suffix_loop env fs target_dir stem suffix (numbered target_dir stem suffix counter)
          (counter + 1) = Inr (numbered target_dir stem suffix k)"
  proof (rule Suc.hyps(1))
    show "d = k - (counter + 1)" using Suc.hyps(2) by simp
    show "counter + 1 \<le> k" using lt by simp
    show "\<forall>n. counter + 1 \<le> n \<and> n < k \<longrightarrow>
            path_exists env fs (numbered target_dir stem suffix n) = Inr True"
      using Suc.prems(4) by simp
  qed (use ex Suc.prems in simp_all)
  with Suc.prems(1,2) lt show ?case
    by (simp add: suffix_loop.simps [of env fs target_dir stem suffix target_path])
qed

lemma suffix_loop_exhausted:
  assumes "path_exists env fs target_path = Inr True"
    and "\<forall>n. counter \<le> n \<and> n < 100 \<longrightarrow>
           path_exists env fs (numbered target_dir stem suffix n) = Inr True"
  shows "suffix_loop env fs target_dir stem suffix target_path counter = Inl CollisionExhausted"
  using assms
proof (induction "100 - counter" arbitrary: counter target_path)
  case 0
  then show ?case
    by (simp add: suffix_loop.simps [of env fs target_dir stem suffix target_path])
next
  case (Suc d)
  then have lt: "counter < 100" by simp
  with Suc.prems
  have ex: "path_exists env fs (numbered target_dir stem suffix counter) = Inr True"
    by simp
  show ?case
  proof (cases "counter + 1 > 100")
    case True
    with Suc.prems(1) show ?thesis
      by (simp add: suffix_loop.simps [of env fs target_dir stem suffix target_path])
  next
    case False
    have "suffix_loop env fs target_dir stem suffix (numbered target_dir stem suffix counter)
            (counter + 1) = Inl CollisionExhausted"
    proof (rule Suc.hyps(1))
      show "d = 100 - (counter + 1)" using Suc.hyps(2) by simp
      show "path_exists env fs (numbered target_dir stem suffix counter) = Inr True"
        by (rule ex)
      show "\<forall>n. counter + 1 \<le> n \<and> n < 100 \<longrightarrow>
                path_exists env fs (numbered target_dir stem suffix n) = Inr True"
        using Suc.prems(2) by simp
    qed
    with Suc.prems(1) False show ?thesis
      by (simp add: suffix_loop.simps [of env fs target_dir stem suffix target_path])
  qed
qed

text \<open>
  C1. In the file system that the first run over the two-line playlist leaves, the file
  \<open>C (1)\<close> is identical to the source \<open>/m/b\<close>, and \<open>C\<close> is not. Asked again for the target
  of \<open>/m/b\<close>, \<^verbatim>\<open>generate_target_path\<close> does not return \<open>C (1)\<close>: the loop does not compare
  contents, goes past it and returns the free name \<open>C (2)\<close>.
\<close>

theorem suffix_loop_skips_identical_copy:
  "files_identical demo_env
      (run_fs demo_env (M3U8Importer demo_playlist demo_target) demo_fs)
      [ascii ''m'', ascii ''b''] [ascii ''t'', ascii ''A'', ascii ''B'', ascii ''C (1)'']
   \<and> snd (generate_target_path demo_env demo_target
            (run_fs demo_env (M3U8Importer demo_playlist demo_target) demo_fs)
            [ascii ''m'', ascii ''b''] demo_tags)
       = Inr [ascii ''t'', ascii ''A'', ascii ''B'', ascii ''C (2)'']"
  by (simp add: demo_defs)

text \<open>
  C2. The first run over the two-line playlist returns True with two files copied. The
  second run, from the file system the first one leaves, skips the first file and copies
  the second one again, under the name \<open>C (2)\<close>, adding its size to the bytes copied.
\<close>

theorem second_run_copies_again:
  "run_ok demo_env (M3U8Importer demo_playlist demo_target) demo_fs
   \<and> map rec_status
        (results (run_importer demo_env (M3U8Importer demo_playlist demo_target) demo_fs))
       = [Success, Success]
   \<and> map rec_status
        (results (run_importer demo_env (M3U8Importer demo_playlist demo_target)
                   (run_fs demo_env (M3U8Importer demo_playlist demo_target) demo_fs)))
       = [Skipped, Success]
   \<and> map rec_target_path
        (results (run_importer demo_env (M3U8Importer demo_playlist demo_target)
                   (run_fs demo_env (M3U8Importer demo_playlist demo_target) demo_fs)))
       = [Some [ascii ''t'', ascii ''A'', ascii ''B'', ascii ''C''],
          Some [ascii ''t'', ascii ''A'', ascii ''B'', ascii ''C (2)'']]
   \<and> total_size
        (run_importer demo_env (M3U8Importer demo_playlist demo_target)
           (run_fs demo_env (M3U8Importer demo_playlist demo_target) demo_fs)) = 1"
  by (simp add: demo_defs)

end
